theory Spec2Isabelle
  imports Complex_Main "HOL-Library.Signed_Division"
begin

section \<open>JavaScript numbers\<close>

text \<open>
  The estimator of \<^verbatim>\<open>VolumeFilterNode.ts\<close> computes with JavaScript numbers (IEEE 754
  binary64) and stores samples in \<^verbatim>\<open>Float32Array\<close>s (binary32). A number is NaN, an
  infinity or a finite real. The two zeros are identified: the code never tests the sign
  of a zero, and it divides by counts only. Finite results are rounded to the format,
  ties to even; \<^verbatim>\<open>**\<close> and \<^verbatim>\<open>Math.sqrt\<close> are taken as correctly rounded, as the engines
  compute them.
\<close>

datatype jsnum = NaN | NegInf | Fin real | PosInf

text \<open>Nearest integer, ties to the even one.\<close>

definition rne :: "real \<Rightarrow> int" where
  "rne y = (let f = \<lfloor>y\<rfloor> in
     if y - of_int f < 1 / 2 then f
     else if 1 / 2 < y - of_int f then f + 1
     else if even f then f else f + 1)"

definition pow2 :: "int \<Rightarrow> real" where
  "pow2 e = (if 0 \<le> e then 2 ^ nat e else 1 / 2 ^ nat (- e))"

text \<open>
  The spacing of the numbers of a format with \<open>p\<close> significant bits and least normal
  exponent \<open>emin\<close> around \<open>x\<close>; below \<open>2 ^ emin\<close> the spacing is that of the subnormals.
\<close>

definition quantum :: "nat \<Rightarrow> int \<Rightarrow> real \<Rightarrow> real" where
  "quantum p emin x = pow2 (max \<lfloor>log 2 \<bar>x\<bar>\<rfloor> emin - (int p - 1))"

definition round_fin :: "nat \<Rightarrow> int \<Rightarrow> real \<Rightarrow> real" where
  "round_fin p emin x =
     (if x = 0 then 0
      else sgn x * of_int (rne (\<bar>x\<bar> / quantum p emin x)) * quantum p emin x)"

text \<open>A rounded magnitude beyond the largest finite number of the format is an infinity.\<close>

definition to_format :: "nat \<Rightarrow> int \<Rightarrow> int \<Rightarrow> real \<Rightarrow> jsnum" where
  "to_format p emin emax x =
     (let r = round_fin p emin x in
      if pow2 (emax + 1) \<le> \<bar>r\<bar> then (if 0 < x then PosInf else NegInf) else Fin r)"

definition dround :: "real \<Rightarrow> real" where
  "dround = round_fin 53 (- 1022)"

definition dbl :: "real \<Rightarrow> jsnum" where
  "dbl = to_format 53 (- 1022) 1023"

definition f32 :: "real \<Rightarrow> jsnum" where
  "f32 = to_format 24 (- 126) 127"

text \<open>The conversion of a number stored into a \<^verbatim>\<open>Float32Array\<close>.\<close>

fun fround :: "jsnum \<Rightarrow> jsnum" where
  "fround (Fin a) = f32 a"
| "fround v = v"

fun js_neg :: "jsnum \<Rightarrow> jsnum" where
  "js_neg NaN = NaN"
| "js_neg NegInf = PosInf"
| "js_neg (Fin a) = Fin (- a)"
| "js_neg PosInf = NegInf"

fun js_add :: "jsnum \<Rightarrow> jsnum \<Rightarrow> jsnum" where
  "js_add NaN _ = NaN"
| "js_add _ NaN = NaN"
| "js_add (Fin a) (Fin b) = dbl (a + b)"
| "js_add PosInf NegInf = NaN"
| "js_add NegInf PosInf = NaN"
| "js_add PosInf _ = PosInf"
| "js_add _ PosInf = PosInf"
| "js_add NegInf _ = NegInf"
| "js_add _ NegInf = NegInf"

definition js_sub :: "jsnum \<Rightarrow> jsnum \<Rightarrow> jsnum" where
  "js_sub a b = js_add a (js_neg b)"

text \<open>\<^verbatim>\<open>x ** 2\<close>.\<close>

fun js_sq :: "jsnum \<Rightarrow> jsnum" where
  "js_sq NaN = NaN"
| "js_sq (Fin a) = dbl (a * a)"
| "js_sq _ = PosInf"

text \<open>
  \<^verbatim>\<open>x / n\<close> for an integer \<open>n\<close> (a channel count or a number of samples). A zero divisor
  is taken as \<open>+0\<close>, the zero that \<^verbatim>\<open>Math.round\<close> returns for an argument of \<open>0\<close> or more.
\<close>

fun js_div :: "jsnum \<Rightarrow> int \<Rightarrow> jsnum" where
  "js_div NaN n = NaN"
| "js_div (Fin a) n =
     (if n = 0 then (if a = 0 then NaN else if 0 < a then PosInf else NegInf)
      else dbl (a / of_int n))"
| "js_div PosInf n = (if 0 \<le> n then PosInf else NegInf)"
| "js_div NegInf n = (if 0 \<le> n then NegInf else PosInf)"

text \<open>The comparisons \<^verbatim>\<open><\<close> and \<^verbatim>\<open>>=\<close>: both are false when an operand is NaN.\<close>

fun js_lt :: "jsnum \<Rightarrow> jsnum \<Rightarrow> bool" where
  "js_lt NaN _ = False"
| "js_lt _ NaN = False"
| "js_lt (Fin a) (Fin b) = (a < b)"
| "js_lt PosInf _ = False"
| "js_lt _ PosInf = True"
| "js_lt _ NegInf = False"
| "js_lt NegInf _ = True"

fun js_ge :: "jsnum \<Rightarrow> jsnum \<Rightarrow> bool" where
  "js_ge NaN _ = False"
| "js_ge _ NaN = False"
| "js_ge a b = (\<not> js_lt a b)"

definition Math_max :: "jsnum \<Rightarrow> jsnum \<Rightarrow> jsnum" where
  "Math_max a b = (if a = NaN \<or> b = NaN then NaN else if js_lt a b then b else a)"

fun Math_sqrt :: "jsnum \<Rightarrow> jsnum" where
  "Math_sqrt NaN = NaN"
| "Math_sqrt NegInf = NaN"
| "Math_sqrt (Fin a) = (if a < 0 then NaN else dbl (sqrt a))"
| "Math_sqrt PosInf = PosInf"

text \<open>\<^verbatim>\<open>Math.round\<close> of a finite number: the nearest integer, a tie going up.\<close>

definition Math_round :: "real \<Rightarrow> int" where
  "Math_round x = \<lfloor>x + 1 / 2\<rfloor>"

text \<open>
  \<^verbatim>\<open>a % b\<close> on integers: the remainder has the sign of the dividend, and is NaN
  (\<open>None\<close>) for a zero divisor.
\<close>

definition js_rem :: "int \<Rightarrow> int \<Rightarrow> int option" where
  "js_rem a b = (if b = 0 then None else Some (a smod b))"

text \<open>
  Element access of a typed array. A read outside \<open>[0, length)\<close> or at NaN yields
  \<^verbatim>\<open>undefined\<close> (\<open>None\<close>); a write there is ignored.
\<close>

definition typed_get :: "jsnum list \<Rightarrow> int option \<Rightarrow> jsnum option" where
  "typed_get xs idx =
     (case idx of
        None \<Rightarrow> None
      | Some i \<Rightarrow> if 0 \<le> i \<and> i < int (length xs) then Some (xs ! nat i) else None)"

definition typed_set :: "jsnum list \<Rightarrow> int \<Rightarrow> jsnum \<Rightarrow> jsnum list" where
  "typed_set xs i v =
     (if 0 \<le> i \<and> i < int (length xs) then xs[nat i := fround v] else xs)"

text \<open>\<^verbatim>\<open>undefined\<close> as an operand of arithmetic is NaN.\<close>

fun to_number :: "jsnum option \<Rightarrow> jsnum" where
  "to_number None = NaN"
| "to_number (Some v) = v"

section \<open>The ring buffer\<close>

datatype exn = RangeError | Error

text \<open>
  \<^verbatim>\<open>class SingleChannelRingBuffer extends Float32Array\<close>: the array's elements and the
  private cursor \<^verbatim>\<open>_lastSampleI\<close>. Indices and lengths are integers far below \<open>2 ^ 53\<close>,
  where the arithmetic of numbers is exact; they are modelled by \<open>int\<close>.
\<close>

record SingleChannelRingBuffer =
  elems :: "jsnum list"
  lastSampleI :: int

definition rb_length :: "SingleChannelRingBuffer \<Rightarrow> int" where
  "rb_length rb = int (length (elems rb))"

text \<open>
  \<^verbatim>\<open>new SingleChannelRingBuffer(length)\<close>. The \<^verbatim>\<open>Float32Array\<close> constructor throws a
  RangeError for a negative length, for a length above \<open>2 ^ 53 - 1\<close> and for one that the
  engine cannot allocate; \<open>maxLength\<close> is the largest length that the engine allocates. The
  elements start as zero.
\<close>

definition new_SingleChannelRingBuffer :: "int \<Rightarrow> int \<Rightarrow> exn + SingleChannelRingBuffer" where
  "new_SingleChannelRingBuffer maxLength len =
     (if len < 0 \<or> 2 ^ 53 - 1 < len \<or> maxLength < len then Inl RangeError
      else Inr \<lparr>elems = replicate (nat len) (Fin 0), lastSampleI = len - 1\<rparr>)"

definition push :: "SingleChannelRingBuffer \<Rightarrow> jsnum \<Rightarrow> SingleChannelRingBuffer" where
  "push rb val =
     (let i = lastSampleI rb + 1;
          i' = (if rb_length rb \<le> i then 0 else i)
      in \<lparr>elems = typed_set (elems rb) i' val, lastSampleI = i'\<rparr>)"

text \<open>
  The value of \<^verbatim>\<open>this._lastSampleI - depth + this.length\<close> as the code computes it, in
  doubles.
\<close>

definition index_sum :: "SingleChannelRingBuffer \<Rightarrow> int \<Rightarrow> real" where
  "index_sum rb depth =
     dround (dround (of_int (lastSampleI rb) - of_int depth) + of_int (rb_length rb))"

text \<open>
  \<open>dev\<close> is the build constant \<^verbatim>\<open>IS_DEV_MODE\<close>. While the length and the depth are at most
  \<open>2 ^ 51\<close> in magnitude, the doubles of \<open>index_sum\<close> are the exact integers (shown below
  as \<open>index_sum_exact\<close>), and \<open>getReverse\<close> computes with these. A depth beyond that, where
  the doubles round, is outside what this definition describes.
\<close>

definition getReverse :: "bool \<Rightarrow> SingleChannelRingBuffer \<Rightarrow> int \<Rightarrow> exn + jsnum option" where
  "getReverse dev rb depth =
     (if dev \<and> rb_length rb \<le> depth then Inl RangeError
      else Inr (typed_get (elems rb)
                  (js_rem (lastSampleI rb - depth + rb_length rb) (rb_length rb))))"

text \<open>
  The cursor of a buffer that was constructed with a positive length and then only pushed
  to lies inside the array.
\<close>

definition rb_wf :: "SingleChannelRingBuffer \<Rightarrow> bool" where
  "rb_wf rb = (0 \<le> lastSampleI rb \<and> lastSampleI rb < rb_length rb)"

section \<open>The processor\<close>

definition SAMPLES_PER_QUANTUM :: nat where
  "SAMPLES_PER_QUANTUM = 128"

definition DEFAULT_MAX_NUM_CHANNELS :: int where
  "DEFAULT_MAX_NUM_CHANNELS = 32"

text \<open>
  \<open>sampleRate\<close> is the global of the audio worklet scope. Window lengths and the sample
  rate are finite. The window length of \<^verbatim>\<open>process\<close> is a 32-bit float, so its product with
  the sample rate is far from the overflow threshold of a double and \<^verbatim>\<open>Math.round\<close>
  returns an integer. In the constructor a product beyond the threshold is an infinity in
  the code and a number of \<open>2 ^ 1024\<close> or more in magnitude here; as the length of an array
  both are refused alike.
\<close>

definition windowLengthNumSecondsToSamples :: "real \<Rightarrow> real \<Rightarrow> int" where
  "windowLengthNumSecondsToSamples sampleRate numSeconds =
     Math_round (dround (numSeconds * sampleRate))"

text \<open>The options that reach the processor's constructor, and the merged \<^verbatim>\<open>_options\<close>.\<close>

record processorOptions =
  po_maxChannels :: "int option"
  po_maxSmoothingWindowLength :: "real option"

record nodeOptions =
  outputChannelCount :: "nat list"
  parameterData_smoothingWindowLength :: real
  processorOptions :: "processorOptions option"

text \<open>
  \<^verbatim>\<open>new VolumeFilterNode(context, maxSmoothingWindowLength, smoothingWindowLength)\<close> hands
  these options to the platform; \<^verbatim>\<open>processorOptions\<close> is commented out in the source, so
  \<open>maxSmoothingWindowLength\<close> goes nowhere.
\<close>

definition VolumeFilterNode :: "real \<Rightarrow> real \<Rightarrow> nodeOptions" where
  "VolumeFilterNode maxSmoothingWindowLength smoothingWindowLength =
     \<lparr>outputChannelCount = [1],
      parameterData_smoothingWindowLength = smoothingWindowLength,
      processorOptions = None\<rparr>"

record options =
  maxChannels :: int
  maxSmoothingWindowLength :: real

record VolumeFilterProcessor =
  sampleSquaresRingBuffer :: SingleChannelRingBuffer
  currWindowSquaresSum :: jsnum
  options :: options

text \<open>
  The constructor of \<^verbatim>\<open>VolumeFilterProcessor\<close>. The spread of \<^verbatim>\<open>options.processorOptions\<close>
  overrides the two defaults where it has the key. The base class
  \<^verbatim>\<open>WorkaroundAudioWorkletProcessor\<close> is outside these sources; the processor uses nothing
  of it but \<^verbatim>\<open>keepAlive\<close>, the value that \<^verbatim>\<open>process\<close> returns.
\<close>

definition merge_options :: "nodeOptions \<Rightarrow> options" where
  "merge_options opts =
     \<lparr>maxChannels =
        (case processorOptions opts of
           None \<Rightarrow> DEFAULT_MAX_NUM_CHANNELS
         | Some po \<Rightarrow>
             (case po_maxChannels po of None \<Rightarrow> DEFAULT_MAX_NUM_CHANNELS | Some c \<Rightarrow> c)),
      maxSmoothingWindowLength =
        (case processorOptions opts of
           None \<Rightarrow> parameterData_smoothingWindowLength opts
         | Some po \<Rightarrow>
             (case po_maxSmoothingWindowLength po of
                None \<Rightarrow> parameterData_smoothingWindowLength opts
              | Some w \<Rightarrow> w))\<rparr>"

definition new_VolumeFilterProcessor ::
  "int \<Rightarrow> real \<Rightarrow> nodeOptions \<Rightarrow> exn + VolumeFilterProcessor" where
  "new_VolumeFilterProcessor maxLength sampleRate opts =
     (let opts' = merge_options opts;
          bufferLength = windowLengthNumSecondsToSamples sampleRate (maxSmoothingWindowLength opts')
      in case new_SingleChannelRingBuffer maxLength bufferLength of
           Inl e \<Rightarrow> Inl e
         | Inr rb \<Rightarrow>
             Inr \<lparr>sampleSquaresRingBuffer = rb, currWindowSquaresSum = Fin 0, options = opts'\<rparr>)"

text \<open>
  The module variable \<^verbatim>\<open>devErrorShown\<close>, shared by all processors, and the calls of
  \<^verbatim>\<open>console.error\<close> so far (each with the two window lengths it prints).
\<close>

record globals =
  devErrorShown :: bool
  console_error :: "(real \<times> real) list"

datatype completion = Returned | Threw exn

text \<open>\<^verbatim>\<open>input[channelI][sampleI]\<close>; outside the channel it is \<^verbatim>\<open>undefined\<close>.\<close>

definition sample_at :: "jsnum list \<Rightarrow> nat \<Rightarrow> jsnum" where
  "sample_at channel sampleI = to_number (typed_get channel (Some (int sampleI)))"

text \<open>The inner loop over the channels.\<close>

definition allChannelsSampleSquareSum :: "jsnum list list \<Rightarrow> nat \<Rightarrow> jsnum" where
  "allChannelsSampleSquareSum input sampleI =
     foldl (\<lambda>acc channel. js_add acc (js_sq (sample_at channel sampleI))) (Fin 0) input"

text \<open>
  The body of the loop over the samples: the state is the processor and the output
  channel, both mutated in place. \<^verbatim>\<open>getReverse\<close> may throw before anything is written.
\<close>

definition sample_step ::
  "bool \<Rightarrow> int \<Rightarrow> jsnum list list \<Rightarrow> nat \<Rightarrow> VolumeFilterProcessor \<times> jsnum list
     \<Rightarrow> exn + VolumeFilterProcessor \<times> jsnum list" where
  "sample_step dev smoothingWindowLengthSamples input sampleI st =
     (let p = fst st; outputChannel = snd st;
          allChannelsSampleMeanSquare =
            js_div (allChannelsSampleSquareSum input sampleI) (int (length input))
      in case getReverse dev (sampleSquaresRingBuffer p) (smoothingWindowLengthSamples - 1) of
           Inl e \<Rightarrow> Inl e
         | Inr lastWindowSampleSquare \<Rightarrow>
             (let s1 = js_sub (currWindowSquaresSum p) (to_number lastWindowSampleSquare);
                  s2 = js_add s1 allChannelsSampleMeanSquare;
                  s3 = Math_max s2 (Fin 0);
                  rb = push (sampleSquaresRingBuffer p) allChannelsSampleMeanSquare;
                  currVolume = Math_sqrt (js_div s3 smoothingWindowLengthSamples)
              in Inr (p\<lparr>sampleSquaresRingBuffer := rb, currWindowSquaresSum := s3\<rparr>,
                      typed_set outputChannel (int sampleI) currVolume)))"

function sample_loop ::
  "bool \<Rightarrow> int \<Rightarrow> jsnum list list \<Rightarrow> nat \<Rightarrow> nat \<Rightarrow> VolumeFilterProcessor \<times> jsnum list
     \<Rightarrow> (VolumeFilterProcessor \<times> jsnum list) \<times> completion" where
  "sample_loop dev ws input numSamples sampleI st =
     (if sampleI < numSamples then
        (case sample_step dev ws input sampleI st of
           Inl e \<Rightarrow> (st, Threw e)
         | Inr st' \<Rightarrow> sample_loop dev ws input numSamples (Suc sampleI) st')
      else (st, Returned))"
  by pat_completeness auto
termination
  by (relation "measure (\<lambda>(dev, ws, input, numSamples, sampleI, st). numSamples - sampleI)") auto

declare sample_loop.simps [simp del]

text \<open>
  \<^verbatim>\<open>process(inputs, outputs, parameters)\<close>. The node has one input and one output of one
  channel: \<open>input\<close> is \<^verbatim>\<open>inputs[0]\<close>, \<open>outputChannel\<close> is \<^verbatim>\<open>outputs[0][0]\<close> and
  \<open>smoothingWindowLength\<close> is \<^verbatim>\<open>parameters.smoothingWindowLength[0]\<close>. The result holds
  everything the call may have changed, also when it throws, and how it ended; the value
  returned, \<^verbatim>\<open>keepAlive\<close> of the base class, is left out.
\<close>

record process_result =
  res_globals :: globals
  res_this :: VolumeFilterProcessor
  res_output :: "jsnum list"
  res_completion :: completion

definition process ::
  "bool \<Rightarrow> real \<Rightarrow> globals \<Rightarrow> VolumeFilterProcessor \<Rightarrow> jsnum list list \<Rightarrow> jsnum list \<Rightarrow> real
     \<Rightarrow> process_result" where
  "process dev sampleRate g p input outputChannel smoothingWindowLength =
     (let smoothingWindowLengthSamples =
            windowLengthNumSecondsToSamples sampleRate smoothingWindowLength;
          g' = (if dev
                  \<and> smoothingWindowLengthSamples
                      \<noteq> windowLengthNumSecondsToSamples sampleRate
                          (maxSmoothingWindowLength (options p))
                  \<and> \<not> devErrorShown g
                then g\<lparr>console_error :=
                         console_error g
                           @ [(smoothingWindowLength, maxSmoothingWindowLength (options p))],
                       devErrorShown := True\<rparr>
                else g)
      in if length input = 0 then
           \<lparr>res_globals = g', res_this = p, res_output = outputChannel,
            res_completion = Returned\<rparr>
         else
           (let numSamples = length (input ! 0)
            in if dev \<and> numSamples \<noteq> SAMPLES_PER_QUANTUM then
                 \<lparr>res_globals = g', res_this = p, res_output = outputChannel,
                  res_completion = Threw Error\<rparr>
               else
                 (let r = sample_loop dev smoothingWindowLengthSamples input numSamples 0
                            (p, outputChannel)
                  in \<lparr>res_globals = g', res_this = fst (fst r), res_output = snd (fst r),
                      res_completion = snd r\<rparr>)))"

text \<open>
  A run of the audio thread: calls of \<^verbatim>\<open>process\<close> in order, each on one of the
  processors of the scope (a call that names no processor does nothing). The run goes on
  after a call that threw.
\<close>

record call =
  call_target :: nat
  call_input :: "jsnum list list"
  call_output :: "jsnum list"
  call_smoothingWindowLength :: real

fun run ::
  "bool \<Rightarrow> real \<Rightarrow> globals \<times> VolumeFilterProcessor list \<Rightarrow> call list
     \<Rightarrow> (globals \<times> VolumeFilterProcessor list) \<times> process_result list" where
  "run dev sampleRate (g, ps) [] = ((g, ps), [])"
| "run dev sampleRate (g, ps) (c # cs) =
     (if call_target c < length ps then
        (let r = process dev sampleRate g (ps ! call_target c) (call_input c) (call_output c)
                   (call_smoothingWindowLength c);
             rest = run dev sampleRate (res_globals r, ps[call_target c := res_this r]) cs
         in (fst rest, r # snd rest))
      else run dev sampleRate (g, ps) cs)"

text \<open>
  The values at the depths \<open>lo \<dots> hi - 1\<close> behind the cursor are all \<open>v\<close>; with \<open>lo = 0\<close>
  these are the last \<open>hi\<close> values pushed, the trailing window.
\<close>

definition depths_hold :: "SingleChannelRingBuffer \<Rightarrow> int \<Rightarrow> int \<Rightarrow> jsnum \<Rightarrow> bool" where
  "depths_hold rb lo hi v = (\<forall>d. lo \<le> d \<and> d < hi \<longrightarrow> getReverse False rb d = Inr (Some v))"

text \<open>
  The output sample for a mean \<open>a\<close> of the running sum over the window, when nothing
  overflows: the quotient rounded to a double, its square root rounded to a double, and
  that stored as a 32-bit float.
\<close>

definition rounded_volume :: "real \<Rightarrow> real" where
  "rounded_volume a = round_fin 24 (- 126) (dround (sqrt (dround a)))"

text \<open>
  What the flag \<^verbatim>\<open>devErrorShown\<close> guards: nothing was logged while it is unset, and at most
  one message once it is set.
\<close>

definition log_inv :: "globals \<Rightarrow> bool" where
  "log_inv g = (if devErrorShown g then length (console_error g) \<le> 1 else console_error g = [])"

text \<open>A number that is not negative: NaN, or zero or more.\<close>

definition not_negative :: "jsnum \<Rightarrow> bool" where
  "not_negative v = (v = NaN \<or> js_ge v (Fin 0))"

section \<open>Facts about rounding\<close>

lemma pow2_pos [simp]: "0 < pow2 e"
  by (simp add: pow2_def)

lemma pow2_powr: "pow2 e = 2 powr (of_int e)"
  by (simp add: pow2_def powr_real_of_int divide_inverse)

lemma exponent_eq:
  assumes "pow2 e \<le> \<bar>x\<bar>" "\<bar>x\<bar> < pow2 (e + 1)"
  shows "\<lfloor>log 2 \<bar>x\<bar>\<rfloor> = e"
proof -
  have "0 < \<bar>x\<bar>" using assms(1) pow2_pos[of e] by linarith
  then show ?thesis using assms
    by (simp add: floor_log_eq_powr_iff pow2_powr)
qed

lemma round_fin_eval:
  assumes "pow2 e \<le> \<bar>x\<bar>" "\<bar>x\<bar> < pow2 (e + 1)"
  shows "round_fin p emin x =
     sgn x * of_int (rne (\<bar>x\<bar> / pow2 (max e emin - (int p - 1)))) * pow2 (max e emin - (int p - 1))"
proof -
  have "0 < \<bar>x\<bar>" using assms(1) pow2_pos[of e] by linarith
  then have "x \<noteq> 0" by simp
  then show ?thesis using exponent_eq[OF assms] by (simp add: round_fin_def quantum_def)
qed

lemma pow2_neq0 [simp]: "pow2 e \<noteq> 0"
  using pow2_pos[of e] by linarith

lemma pow2_nonneg [simp]: "0 \<le> pow2 e"
  using pow2_pos[of e] by linarith

lemma pow2_add: "pow2 (a + b) = pow2 a * pow2 b"
  by (simp add: pow2_powr powr_add)

lemma pow2_mono: "a \<le> b \<Longrightarrow> pow2 a \<le> pow2 b"
  by (simp add: pow2_powr)

lemma pow2_strict_mono: "a < b \<Longrightarrow> pow2 a < pow2 b"
  by (simp add: pow2_powr)

lemma pow2_less_iff: "pow2 a < pow2 b \<longleftrightarrow> a < b"
  by (simp add: pow2_powr)

lemma pow2_nat: "pow2 (int n) = 2 ^ n"
  by (simp add: pow2_def)

lemma pow2_0 [simp]: "pow2 0 = 1"
  by (simp add: pow2_def)

lemma rne_of_int [simp]: "rne (of_int n) = n"
  by (simp add: rne_def)

lemma rne_error: "\<bar>of_int (rne y) - y\<bar> \<le> 1 / 2"
  unfolding rne_def Let_def by (auto simp: abs_if) linarith+

lemma rne_nonneg: "0 \<le> y \<Longrightarrow> 0 \<le> rne y"
  unfolding rne_def Let_def by (auto simp: ) 

lemma quantum_pos [simp]: "0 < quantum p emin x"
  by (simp add: quantum_def)

lemma quantum_neq0 [simp]: "quantum p emin x \<noteq> 0"
  using quantum_pos[of p emin x] by linarith

lemma quantum_nonneg [simp]: "0 \<le> quantum p emin x"
  using quantum_pos[of p emin x] by linarith

lemma round_fin_0 [simp]: "round_fin p emin 0 = 0"
  by (simp add: round_fin_def)

lemma round_fin_nonneg: "0 \<le> x \<Longrightarrow> 0 \<le> round_fin p emin x"
  by (simp add: round_fin_def rne_nonneg sgn_if)

lemma round_fin_error: "\<bar>round_fin p emin x - x\<bar> \<le> quantum p emin x / 2"
proof (cases "x = 0")
  case True
  then show ?thesis by (simp add: less_imp_le)
next
  case False
  let ?Q = "quantum p emin x"
  let ?y = "\<bar>x\<bar> / ?Q"
  have x: "x = sgn x * ?y * ?Q" by (simp add: sgn_if)
  have "round_fin p emin x - x = sgn x * (of_int (rne ?y) - ?y) * ?Q"
    using False by (simp add: round_fin_def algebra_simps sgn_if)
  then have "\<bar>round_fin p emin x - x\<bar> = \<bar>of_int (rne ?y) - ?y\<bar> * ?Q"
    using False by (simp add: abs_mult abs_sgn_eq del: )
  also have "\<dots> \<le> (1 / 2) * ?Q"
    by (rule mult_right_mono[OF rne_error]) (simp add: less_imp_le)
  finally show ?thesis by simp
qed

lemma exponent_bounds:
  assumes "x \<noteq> 0"
  shows "pow2 \<lfloor>log 2 \<bar>x\<bar>\<rfloor> \<le> \<bar>x\<bar>" "\<bar>x\<bar> < pow2 (\<lfloor>log 2 \<bar>x\<bar>\<rfloor> + 1)"
proof -
  have "0 < \<bar>x\<bar>" using assms by simp
  then have "2 powr (of_int \<lfloor>log 2 \<bar>x\<bar>\<rfloor>) \<le> \<bar>x\<bar> \<and> \<bar>x\<bar> < 2 powr (of_int (\<lfloor>log 2 \<bar>x\<bar>\<rfloor> + 1))"
    using floor_log_eq_powr_iff[of "\<bar>x\<bar>" 2 "\<lfloor>log 2 \<bar>x\<bar>\<rfloor>"] by simp
  then show "pow2 \<lfloor>log 2 \<bar>x\<bar>\<rfloor> \<le> \<bar>x\<bar>" "\<bar>x\<bar> < pow2 (\<lfloor>log 2 \<bar>x\<bar>\<rfloor> + 1)"
    by (simp_all add: pow2_powr)
qed

text \<open>In the normal range the spacing is at most \<open>2 ^ (1 - p)\<close> times the magnitude.\<close>

lemma quantum_normal:
  assumes "pow2 emin \<le> \<bar>x\<bar>"
  shows "quantum p emin x \<le> \<bar>x\<bar> * pow2 (1 - int p)"
proof -
  have "0 < \<bar>x\<bar>" using assms pow2_pos[of emin] by linarith
  then have nz: "x \<noteq> 0" by simp
  let ?e = "\<lfloor>log 2 \<bar>x\<bar>\<rfloor>"
  have "pow2 emin < pow2 (?e + 1)" using assms exponent_bounds(2)[OF nz] by linarith
  then have "emin \<le> ?e" by (simp add: pow2_less_iff)
  then have "quantum p emin x = pow2 (?e + (1 - int p))"
    by (simp add: quantum_def max_def algebra_simps)
  also have "\<dots> = pow2 ?e * pow2 (1 - int p)" by (rule pow2_add)
  also have "\<dots> \<le> \<bar>x\<bar> * pow2 (1 - int p)"
    by (rule mult_right_mono[OF exponent_bounds(1)[OF nz]]) (simp add: less_imp_le)
  finally show ?thesis .
qed

lemma round_fin_rel_error:
  assumes "pow2 emin \<le> \<bar>x\<bar>"
  shows "\<bar>round_fin p emin x - x\<bar> \<le> \<bar>x\<bar> * pow2 (- int p)"
proof -
  have "pow2 (1 - int p) = 2 * pow2 (- int p)"
    using pow2_add[of 1 "- int p"] by (simp add: pow2_def)
  then have "quantum p emin x / 2 \<le> \<bar>x\<bar> * pow2 (- int p)"
    using quantum_normal[OF assms, of p] by simp
  then show ?thesis using round_fin_error[of p emin x] by linarith
qed

text \<open>A number \<open>m * 2 ^ j\<close> with \<open>\<bar>m\<bar> < 2 ^ p\<close> and \<open>j\<close> not below the least exponent is a
  number of the format: rounding leaves it as it is.\<close>

lemma round_fin_exact:
  assumes "\<bar>m\<bar> < 2 ^ p" and "emin - (int p - 1) \<le> j"
  shows "round_fin p emin (of_int m * pow2 j) = of_int m * pow2 j"
proof (cases "m = 0")
  case True
  then show ?thesis by simp
next
  case False
  define x :: real where "x = of_int m * pow2 j"
  define q where "q = max \<lfloor>log 2 \<bar>x\<bar>\<rfloor> emin - (int p - 1)"
  have nz: "x \<noteq> 0" using False by (simp add: x_def)
  have Q: "quantum p emin x = pow2 q" by (simp add: quantum_def q_def)
  have ax: "\<bar>x\<bar> = of_int \<bar>m\<bar> * pow2 j" by (simp add: x_def abs_mult)
  have "of_int \<bar>m\<bar> < (2::real) ^ p"
    using assms(1) by (metis of_int_less_iff of_int_numeral of_int_power)
  then have "of_int \<bar>m\<bar> * pow2 j < pow2 (int p) * pow2 j"
    unfolding pow2_nat by (rule mult_strict_right_mono) simp
  then have "pow2 \<lfloor>log 2 \<bar>x\<bar>\<rfloor> < pow2 (int p + j)"
    using exponent_bounds(1)[OF nz] unfolding pow2_add ax by linarith
  then have "\<lfloor>log 2 \<bar>x\<bar>\<rfloor> < int p + j" by (simp add: pow2_less_iff)
  then have q: "q \<le> j" using assms(2) by (simp add: q_def)
  have "pow2 j = pow2 (j - q) * pow2 q" using pow2_add[of "j - q" q] by simp
  also have "pow2 (j - q) = 2 ^ nat (j - q)" using q by (simp add: pow2_def)
  finally have pj: "pow2 j = 2 ^ nat (j - q) * pow2 q" .
  have "\<bar>x\<bar> / pow2 q = of_int \<bar>m\<bar> * 2 ^ nat (j - q)" by (simp add: ax pj)
  also have "\<dots> = of_int (\<bar>m\<bar> * 2 ^ nat (j - q))" by simp
  finally have "rne (\<bar>x\<bar> / pow2 q) = \<bar>m\<bar> * 2 ^ nat (j - q)" by (simp only: rne_of_int)
  then have "of_int (rne (\<bar>x\<bar> / pow2 q)) * pow2 q = \<bar>x\<bar>" by (simp add: ax pj)
  then have "sgn x * of_int (rne (\<bar>x\<bar> / pow2 q)) * pow2 q = sgn x * \<bar>x\<bar>"
    by (simp only: mult.assoc)
  also have "sgn x * \<bar>x\<bar> = x" by (simp add: sgn_if)
  finally have "round_fin p emin x = x" using nz by (simp only: round_fin_def Q if_False)
  then show ?thesis by (simp only: x_def)
qed

lemma dround_exact:
  "\<bar>m\<bar> < 2 ^ 53 \<Longrightarrow> - 1074 \<le> j \<Longrightarrow> dround (of_int m * pow2 j) = of_int m * pow2 j"
  unfolding dround_def by (rule round_fin_exact) simp_all

lemma dround_of_int: "\<bar>m\<bar> < 2 ^ 53 \<Longrightarrow> dround (of_int m) = of_int m"
  using dround_exact[of m 0] by simp

lemma dround_0 [simp]: "dround 0 = 0"
  by (simp add: dround_def)

text \<open>The index arithmetic of \<^verbatim>\<open>getReverse\<close> is exact for lengths and depths up to \<open>2 ^ 51\<close>.\<close>

lemma index_sum_exact:
  assumes "0 \<le> lastSampleI rb" "lastSampleI rb < rb_length rb" "rb_length rb \<le> 2 ^ 51"
    and "- (2 ^ 51) \<le> depth" "depth \<le> 2 ^ 51"
  shows "index_sum rb depth = of_int (lastSampleI rb - depth + rb_length rb)"
proof -
  have "dround (of_int (lastSampleI rb - depth)) = of_int (lastSampleI rb - depth)"
    using assms by (intro dround_of_int) (simp add: abs_less_iff)
  moreover have "dround (of_int (lastSampleI rb - depth + rb_length rb))
      = of_int (lastSampleI rb - depth + rb_length rb)"
    using assms by (intro dround_of_int) (simp add: abs_less_iff)
  ultimately show ?thesis by (simp add: index_sum_def)
qed

text \<open>The double written \<^verbatim>\<open>0.1\<close>, and what a \<^verbatim>\<open>Float32Array\<close> makes of it.\<close>

lemma double_tenth: "dround (1 / 10) = 3602879701896397 / 36028797018963968"
  unfolding dround_def
  by (subst round_fin_eval[where e = "- 4"]) (simp_all add: pow2_def rne_def)

lemma f32_tenth: "f32 (3602879701896397 / 36028797018963968) = Fin (13421773 / 134217728)"
proof -
  have "round_fin 24 (- 126) (3602879701896397 / 36028797018963968) = 13421773 / 134217728"
    by (subst round_fin_eval[where e = "- 4"]) (simp_all add: pow2_def rne_def)
  then show ?thesis by (simp add: f32_def to_format_def pow2_def)
qed

section \<open>Facts about the ring buffer\<close>

lemma smod_nonneg: "0 \<le> a \<Longrightarrow> 0 < b \<Longrightarrow> a smod b = a mod (b::int)"
  by (simp add: signed_modulo_int_def sgn_if)

lemma smod_neg: "a < 0 \<Longrightarrow> 0 < b \<Longrightarrow> a smod b = - ((- a) mod (b::int))"
  by (simp add: signed_modulo_int_def sgn_if)

lemma rb_length_push [simp]: "rb_length (push rb v) = rb_length rb"
  by (simp add: push_def rb_length_def typed_set_def Let_def)

lemma push_cursor:
  "rb_wf rb \<Longrightarrow> lastSampleI (push rb v) = (lastSampleI rb + 1) mod rb_length rb"
proof -
  assume wf: "rb_wf rb"
  show ?thesis
  proof (cases "rb_length rb \<le> lastSampleI rb + 1")
    case True
    with wf have "lastSampleI rb + 1 = rb_length rb" by (simp add: rb_wf_def)
    with True show ?thesis by (simp add: push_def Let_def)
  next
    case False
    with wf show ?thesis by (simp add: push_def Let_def rb_wf_def)
  qed
qed

lemma rb_wf_push: "rb_wf rb \<Longrightarrow> rb_wf (push rb v)"
  by (auto simp: push_def rb_wf_def Let_def rb_length_def typed_set_def)

lemma push_elems:
  "rb_wf rb \<Longrightarrow> elems (push rb v) = (elems rb)[nat (lastSampleI (push rb v)) := fround v]"
  by (auto simp: push_def rb_wf_def Let_def rb_length_def typed_set_def)

lemma getReverse_in_range:
  assumes "rb_wf rb" "depth \<le> lastSampleI rb + rb_length rb" "\<not> (dev \<and> rb_length rb \<le> depth)"
  shows "getReverse dev rb depth =
    Inr (Some (elems rb ! nat ((lastSampleI rb - depth + rb_length rb) mod rb_length rb)))"
  using assms
  by (auto simp: getReverse_def js_rem_def typed_get_def rb_wf_def smod_nonneg rb_length_def)

lemma getReverse_push:
  assumes "rb_wf rb" "0 \<le> d" "d < rb_length rb"
  shows "getReverse dev (push rb v) d =
      (if d = 0 then Inr (Some (fround v)) else getReverse dev rb (d - 1))"
proof -
  let ?k = "rb_length rb"
  let ?l = "lastSampleI rb"
  have wf': "rb_wf (push rb v)" using assms(1) by (rule rb_wf_push)
  have l': "lastSampleI (push rb v) = (?l + 1) mod ?k" using assms(1) by (rule push_cursor)
  have k: "0 < ?k" "0 \<le> ?l" "?l < ?k" using assms(1) by (auto simp: rb_wf_def)
  have g1: "getReverse dev (push rb v) d =
     Inr (Some (elems (push rb v) ! nat ((lastSampleI (push rb v) - d + ?k) mod ?k)))"
    using getReverse_in_range[OF wf', of d dev] assms wf' by (simp add: rb_wf_def)
  have idx: "(lastSampleI (push rb v) - d + ?k) mod ?k = (?l - (d - 1) + ?k) mod ?k"
    unfolding l' by (metis (no_types, opaque_lifting) add.commute add_diff_eq diff_diff_eq2 mod_add_left_eq mod_diff_left_eq)
  show ?thesis
  proof (cases "d = 0")
    case True
    have "(lastSampleI (push rb v) - d + ?k) mod ?k = lastSampleI (push rb v)"
      using True wf' by (simp add: rb_wf_def)
    moreover have "0 \<le> lastSampleI (push rb v) \<and> lastSampleI (push rb v) < rb_length rb"
      using wf' by (simp add: rb_wf_def)
    then have "nat (lastSampleI (push rb v)) < length (elems rb)"
      unfolding rb_length_def by linarith
    ultimately show ?thesis using g1 True push_elems[OF assms(1), of v]
      by simp
  next
    case False
    have g2: "getReverse dev rb (d - 1) =
        Inr (Some (elems rb ! nat ((?l - (d - 1) + ?k) mod ?k)))"
      using getReverse_in_range[OF assms(1), of "d - 1" dev] assms k False by simp
    have ne: "(?l - (d - 1) + ?k) mod ?k \<noteq> (?l + 1) mod ?k"
    proof
      assume "(?l - (d - 1) + ?k) mod ?k = (?l + 1) mod ?k"
      then have "?k dvd (?l - (d - 1) + ?k) - (?l + 1)" by (simp only: mod_eq_dvd_iff)
      moreover have "(?l - (d - 1) + ?k) - (?l + 1) = ?k - d" by simp
      ultimately have "?k dvd ?k - d" by simp
      moreover have "0 < ?k - d" "?k - d < ?k" using assms False by simp_all
      ultimately show False using zdvd_not_zless by blast
    qed
    have nn: "0 \<le> (?l - (d - 1) + ?k) mod ?k" "0 \<le> (?l + 1) mod ?k" using k by simp_all
    have "elems (push rb v) ! nat ((?l - (d - 1) + ?k) mod ?k)
        = elems rb ! nat ((?l - (d - 1) + ?k) mod ?k)"
      using push_elems[OF assms(1), of v] ne nn l' by (simp add: nat_eq_iff)
    then show ?thesis using g1 g2 idx False by simp
  qed
qed

lemma rb_wf_new:
  "0 < k \<Longrightarrow> rb_wf \<lparr>elems = replicate (nat k) (Fin 0), lastSampleI = k - 1\<rparr>"
  by (simp add: rb_wf_def rb_length_def)

lemma rb_wf_pushes: "rb_wf rb \<Longrightarrow> rb_wf (foldl push rb vs)"
  by (induction vs arbitrary: rb) (simp_all add: rb_wf_push)

lemma rb_length_pushes [simp]: "rb_length (foldl push rb vs) = rb_length rb"
  by (induction vs arbitrary: rb) simp_all

lemma getReverse_pushes:
  assumes "rb_wf rb"
  shows "d < length vs \<Longrightarrow> int d < rb_length rb \<Longrightarrow>
    getReverse dev (foldl push rb vs) (int d) = Inr (Some (fround (vs ! (length vs - 1 - d))))"
proof (induction vs arbitrary: d rule: rev_induct)
  case Nil
  then show ?case by simp
next
  case (snoc v vs)
  have wf: "rb_wf (foldl push rb vs)" using assms by (rule rb_wf_pushes)
  show ?case
  proof (cases d)
    case 0
    then show ?thesis using getReverse_push[OF wf, of 0 dev v] snoc.prems by simp
  next
    case (Suc d')
    have "getReverse dev (foldl push rb vs) (int d') = Inr (Some (fround (vs ! (length vs - 1 - d'))))"
      using snoc.IH[of d'] snoc.prems Suc by simp
    moreover have "(vs @ [v]) ! (length (vs @ [v]) - 1 - d) = vs ! (length vs - 1 - d')"
      using Suc snoc.prems by (auto simp: nth_append)
    ultimately show ?thesis
      using getReverse_push[OF wf, of "int d" dev v] snoc.prems Suc by simp
  qed
qed


section \<open>Properties of the ring buffer\<close>

text \<open>
  C4, as amended. Take a ring buffer of capacity \<open>k > 0\<close> (cursor inside the array, as
  after construction and any pushes) and push \<open>k\<close> values \<open>v\<^sub>0 \<dots> v\<^sub>k\<^sub>-\<^sub>1\<close> in order. Then
  \<^verbatim>\<open>getReverse(k - 1)\<close> returns \<open>v\<^sub>0\<close> as the \<^verbatim>\<open>Float32Array\<close> stored it, that is rounded to
  a 32-bit float, and \<^verbatim>\<open>getReverse(0)\<close> returns \<open>v\<^sub>k\<^sub>-\<^sub>1\<close> rounded likewise, in development and
  in production builds. The value is \<open>v\<close> itself exactly when \<open>v\<close> is a 32-bit float.
\<close>

theorem ring_round_trip:
  assumes "rb_wf rb" and "int (length vs) = rb_length rb"
  shows "getReverse dev (foldl push rb vs) (rb_length rb - 1) = Inr (Some (fround (vs ! 0)))
       \<and> getReverse dev (foldl push rb vs) 0 = Inr (Some (fround (vs ! (length vs - 1))))"
proof -
  have "0 < rb_length rb" using assms(1) by (simp add: rb_wf_def)
  then have pos: "0 < length vs" by (simp add: assms(2)[symmetric])
  have a: "getReverse dev (foldl push rb vs) (int (length vs - 1)) =
      Inr (Some (fround (vs ! (length vs - 1 - (length vs - 1)))))"
    by (rule getReverse_pushes[OF assms(1)]) (use pos assms(2)[symmetric] in simp_all)
  have "int (length vs - 1) = int (length vs) - 1" using pos by (cases vs) simp_all
  then have i: "int (length vs - 1) = rb_length rb - 1" by (simp only: assms(2))
  have b: "getReverse dev (foldl push rb vs) (int 0) =
      Inr (Some (fround (vs ! (length vs - 1 - 0))))"
    by (rule getReverse_pushes[OF assms(1)]) (use pos assms(2)[symmetric] in simp_all)
  show ?thesis using a b unfolding i by simp
qed

theorem ring_round_trip_witness:
  "rb_wf \<lparr>elems = [Fin 0, Fin 0], lastSampleI = 1\<rparr>
   \<and> int (length [Fin (1 / 4), PosInf]) = rb_length \<lparr>elems = [Fin 0, Fin 0], lastSampleI = 1\<rparr>
   \<and> getReverse True (foldl push \<lparr>elems = [Fin 0, Fin 0], lastSampleI = 1\<rparr> [Fin (1 / 4), PosInf]) 1
       = Inr (Some (fround (Fin (1 / 4))))
   \<and> getReverse True (foldl push \<lparr>elems = [Fin 0, Fin 0], lastSampleI = 1\<rparr> [Fin (1 / 4), PosInf]) 0
       = Inr (Some PosInf)"
  using ring_round_trip[of "\<lparr>elems = [Fin 0, Fin 0], lastSampleI = 1\<rparr>" "[Fin (1 / 4), PosInf]" True]
  by (simp add: rb_wf_def rb_length_def)

text \<open>
  The claim as stated fails for a value that is no 32-bit float: after \<^verbatim>\<open>push(0.1)\<close> on a
  buffer of capacity 1, \<^verbatim>\<open>getReverse(0)\<close> is \<open>13421773 / 2 ^ 27\<close>, not the double \<open>0.1\<close>.
\<close>

theorem ring_round_trip_counterexample:
  "new_SingleChannelRingBuffer 4294967295 1 = Inr \<lparr>elems = [Fin 0], lastSampleI = 0\<rparr>
   \<and> dround (1 / 10) = 3602879701896397 / 36028797018963968
   \<and> getReverse False
        (foldl push \<lparr>elems = [Fin 0], lastSampleI = 0\<rparr>
           [Fin (3602879701896397 / 36028797018963968)]) (1 - 1)
      = Inr (Some (Fin (13421773 / 134217728)))
   \<and> Fin (13421773 / 134217728) \<noteq> Fin (3602879701896397 / 36028797018963968)"
  by (simp add: new_SingleChannelRingBuffer_def getReverse_def push_def rb_length_def
      typed_set_def typed_get_def js_rem_def signed_modulo_int_def f32_tenth double_tenth)

text \<open>
  C5, as amended. In a development build \<^verbatim>\<open>getReverse(depth)\<close> throws a RangeError exactly
  when \<open>depth \<ge> capacity\<close>. For every smaller depth, the negative ones too, it does
  what the production build does and throws nothing.
\<close>

theorem getReverse_dev_throws:
  "(getReverse True rb depth = Inl RangeError \<longleftrightarrow> rb_length rb \<le> depth)
   \<and> (depth < rb_length rb \<longrightarrow> getReverse True rb depth = getReverse False rb depth)"
  by (simp add: getReverse_def)

theorem getReverse_dev_throws_witness:
  "(- 1) < rb_length \<lparr>elems = [Fin 0, Fin 0], lastSampleI = 1\<rparr>
   \<and> getReverse True \<lparr>elems = [Fin 0, Fin 0], lastSampleI = 1\<rparr> (- 1)
      = getReverse False \<lparr>elems = [Fin 0, Fin 0], lastSampleI = 1\<rparr> (- 1)"
  using getReverse_dev_throws[of "\<lparr>elems = [Fin 0, Fin 0], lastSampleI = 1\<rparr>" "- 1"]
  by (simp add: rb_length_def)

text \<open>
  The claim as stated fails at \<open>depth = -1\<close>: no RangeError, the call returns the slot after
  the cursor.
\<close>

theorem getReverse_dev_negative_counterexample:
  "getReverse True \<lparr>elems = [Fin 1, Fin 2], lastSampleI = 1\<rparr> (- 1) = Inr (Some (Fin 1))"
  by (simp add: getReverse_def rb_length_def typed_get_def js_rem_def signed_modulo_int_def)

lemma getReverse_wrapped:
  assumes "rb_wf rb"
  shows "getReverse False rb depth =
     Inr (if depth \<le> lastSampleI rb + rb_length rb \<or> rb_length rb dvd (lastSampleI rb - depth)
          then Some (elems rb ! nat ((lastSampleI rb - depth + rb_length rb) mod rb_length rb))
          else None)"
proof -
  let ?k = "rb_length rb"
  let ?a = "lastSampleI rb - depth + ?k"
  have k: "0 < ?k" using assms by (simp add: rb_wf_def)
  show ?thesis
  proof (cases "0 \<le> ?a")
    case True
    then show ?thesis using getReverse_in_range[OF assms, of depth False] by simp
  next
    case False
    then have neg: "?a < 0" by simp
    have sm: "?a smod ?k = - ((- ?a) mod ?k)" using neg k by (rule smod_neg)
    show ?thesis
    proof (cases "?k dvd (lastSampleI rb - depth)")
      case True
      then have "?k dvd ?a" by simp
      then have "?k dvd - ?a" by (simp only: dvd_minus_iff)
      then have z1: "(- ?a) mod ?k = 0" by (rule dvd_imp_mod_0)
      have z2: "?a mod ?k = 0" using \<open>?k dvd ?a\<close> by (rule dvd_imp_mod_0)
      note z = z1 z2
      have "0 < length (elems rb)" using k by (simp add: rb_length_def)
      then show ?thesis using True z sm k
        by (simp add: getReverse_def js_rem_def typed_get_def)
    next
      case nd: False
      then have "\<not> ?k dvd - ?a" by (simp del: minus_add_distrib minus_diff_eq)
      then have "(- ?a) mod ?k \<noteq> 0" by (simp add: dvd_eq_mod_eq_0)
      moreover have "0 \<le> (- ?a) mod ?k" using k by simp
      ultimately have "?a smod ?k < 0" using sm by linarith
      then show ?thesis using nd neg k
        by (simp add: getReverse_def js_rem_def typed_get_def)
    qed
  qed
qed

text \<open>
  C10, as amended. In a production build \<^verbatim>\<open>getReverse\<close> never throws. Take a buffer of
  capacity \<open>0 < k \<le> 2 ^ 51\<close> and an integer depth with \<open>\<bar>depth\<bar> \<le> 2 ^ 51\<close>; there the doubles
  of the index arithmetic are exact. If \<open>depth \<le> _lastSampleI + k\<close> (a negative depth too),
  or \<open>k\<close> divides \<open>_lastSampleI - depth\<close>, the call returns the element at index
  \<open>(_lastSampleI - depth + k) mod k\<close>; so it wraps around for \<open>k \<le> depth \<le> _lastSampleI + k\<close>.
  For every other such depth the remainder of \<^verbatim>\<open>%\<close> is negative and the result is
  \<^verbatim>\<open>undefined\<close>, no element of the buffer.
\<close>

theorem getReverse_production:
  "(\<exists>r. getReverse False rb' depth' = Inr r)
   \<and> (rb_wf rb \<and> rb_length rb \<le> 2 ^ 51 \<and> - (2 ^ 51) \<le> depth \<and> depth \<le> 2 ^ 51 \<longrightarrow>
        index_sum rb depth = of_int (lastSampleI rb - depth + rb_length rb)
        \<and> getReverse False rb depth =
            Inr (if depth \<le> lastSampleI rb + rb_length rb
                    \<or> rb_length rb dvd (lastSampleI rb - depth)
                 then Some (elems rb
                        ! nat ((lastSampleI rb - depth + rb_length rb) mod rb_length rb))
                 else None))"
proof (intro conjI impI)
  show "\<exists>r. getReverse False rb' depth' = Inr r" by (simp add: getReverse_def)
next
  assume a: "rb_wf rb \<and> rb_length rb \<le> 2 ^ 51 \<and> - (2 ^ 51) \<le> depth \<and> depth \<le> 2 ^ 51"
  then show "index_sum rb depth = of_int (lastSampleI rb - depth + rb_length rb)"
    by (intro index_sum_exact) (simp_all add: rb_wf_def)
next
  assume a: "rb_wf rb \<and> rb_length rb \<le> 2 ^ 51 \<and> - (2 ^ 51) \<le> depth \<and> depth \<le> 2 ^ 51"
  then have "rb_wf rb" by simp
  then show "getReverse False rb depth =
      Inr (if depth \<le> lastSampleI rb + rb_length rb
              \<or> rb_length rb dvd (lastSampleI rb - depth)
           then Some (elems rb
                  ! nat ((lastSampleI rb - depth + rb_length rb) mod rb_length rb))
           else None)"
    by (rule getReverse_wrapped)
qed

theorem getReverse_production_witness:
  "rb_wf \<lparr>elems = [Fin 1, Fin 2], lastSampleI = 1\<rparr>
   \<and> rb_length \<lparr>elems = [Fin 1, Fin 2], lastSampleI = 1\<rparr> \<le> 2 ^ 51
   \<and> - (2 ^ 51) \<le> (3::int) \<and> (3::int) \<le> 2 ^ 51
   \<and> index_sum \<lparr>elems = [Fin 1, Fin 2], lastSampleI = 1\<rparr> 3 = 0
   \<and> getReverse False \<lparr>elems = [Fin 1, Fin 2], lastSampleI = 1\<rparr> 3 = Inr (Some (Fin 1))
   \<and> index_sum \<lparr>elems = [Fin 1, Fin 2], lastSampleI = 1\<rparr> (- 1) = 4
   \<and> getReverse False \<lparr>elems = [Fin 1, Fin 2], lastSampleI = 1\<rparr> (- 1) = Inr (Some (Fin 1))
   \<and> getReverse False \<lparr>elems = [Fin 1, Fin 2], lastSampleI = 1\<rparr> 5 = Inr (Some (Fin 1))"
  using getReverse_production[of "\<lparr>elems = [Fin 1, Fin 2], lastSampleI = 1\<rparr>" 3
      "\<lparr>elems = [Fin 1, Fin 2], lastSampleI = 1\<rparr>" 3]
    getReverse_production[of "\<lparr>elems = [Fin 1, Fin 2], lastSampleI = 1\<rparr>" 3
      "\<lparr>elems = [Fin 1, Fin 2], lastSampleI = 1\<rparr>" "- 1"]
    getReverse_production[of "\<lparr>elems = [Fin 1, Fin 2], lastSampleI = 1\<rparr>" 3
      "\<lparr>elems = [Fin 1, Fin 2], lastSampleI = 1\<rparr>" 5]
  by (simp add: rb_wf_def rb_length_def)

text \<open>
  The claim as stated fails at capacity 2, cursor 1 and depth 4: the index is \<open>-1\<close> and the
  result is \<^verbatim>\<open>undefined\<close>.
\<close>

theorem getReverse_production_counterexample:
  "getReverse False \<lparr>elems = [Fin 1, Fin 2], lastSampleI = 1\<rparr> 4 = Inr None"
  by (simp add: getReverse_def rb_length_def typed_get_def js_rem_def signed_modulo_int_def)

text \<open>
  C9, as amended. A ring buffer constructed with a capacity \<open>k > 0\<close> that the engine
  allocates has its cursor at \<open>k - 1\<close>, and its first push writes slot 0. After any pushes,
  a further \<^verbatim>\<open>push(v)\<close> leaves the cursor in \<open>[0, k)\<close>, stores \<open>v\<close> rounded to a 32-bit float
  (\<^verbatim>\<open>Math.fround(v)\<close>, which is \<open>v\<close> itself only when \<open>v\<close> is a 32-bit float) in the slot at
  the cursor and leaves every other slot as it was.
\<close>

theorem push_frame:
  assumes "0 < k" and "k \<le> 2 ^ 53 - 1" and "k \<le> maxLength"
  shows "let rb0 = \<lparr>elems = replicate (nat k) (Fin 0), lastSampleI = k - 1\<rparr>;
             rb = foldl push rb0 vs; rb' = push rb v; i = lastSampleI rb'
         in new_SingleChannelRingBuffer maxLength k = Inr rb0
          \<and> lastSampleI (push rb0 v) = 0
          \<and> elems (push rb0 v) = (elems rb0)[0 := fround v]
          \<and> 0 \<le> i \<and> i < k \<and> rb_length rb' = k
          \<and> elems rb' = (elems rb)[nat i := fround v]
          \<and> elems rb' ! nat i = fround v
          \<and> (j \<noteq> nat i \<longrightarrow> elems rb' ! j = elems rb ! j)"
proof -
  define rb0 where "rb0 = \<lparr>elems = replicate (nat k) (Fin 0), lastSampleI = k - 1\<rparr>"
  define rb where "rb = foldl push rb0 vs"
  have wf0: "rb_wf rb0" unfolding rb0_def using assms(1) by (rule rb_wf_new)
  have len0: "rb_length rb0 = k" using assms(1) by (simp add: rb0_def rb_length_def)
  have new: "new_SingleChannelRingBuffer maxLength k = Inr rb0"
    using assms by (simp add: new_SingleChannelRingBuffer_def rb0_def)
  have first: "lastSampleI (push rb0 v) = 0"
    using push_cursor[OF wf0, of v] len0 by (simp add: rb0_def)
  have first_el: "elems (push rb0 v) = (elems rb0)[0 := fround v]"
    using push_elems[OF wf0, of v] first by simp
  have wf: "rb_wf rb" unfolding rb_def using wf0 by (rule rb_wf_pushes)
  have wf': "rb_wf (push rb v)" using wf by (rule rb_wf_push)
  have len: "rb_length rb = k" using len0 by (simp add: rb_def)
  have rng: "0 \<le> lastSampleI (push rb v)" "lastSampleI (push rb v) < k"
    using wf' len by (simp_all add: rb_wf_def)
  have el: "elems (push rb v) = (elems rb)[nat (lastSampleI (push rb v)) := fround v]"
    using wf by (rule push_elems)
  have lt: "nat (lastSampleI (push rb v)) < length (elems rb)"
    using rng len unfolding rb_length_def by linarith
  have at: "elems (push rb v) ! nat (lastSampleI (push rb v)) = fround v"
    by (subst el) (simp add: lt)
  have others: "j \<noteq> nat (lastSampleI (push rb v)) \<longrightarrow> elems (push rb v) ! j = elems rb ! j"
    by (subst el) simp
  show ?thesis
    unfolding Let_def rb0_def[symmetric] rb_def[symmetric]
    using new first first_el rng len el at others by simp
qed

theorem push_frame_witness:
  "(0::int) < 2 \<and> (2::int) \<le> 2 ^ 53 - 1 \<and> (2::int) \<le> 4294967295 \<and> (0::nat) \<noteq> nat 1
   \<and> (let rb0 = \<lparr>elems = replicate (nat 2) (Fin 0), lastSampleI = 2 - 1\<rparr>;
           rb = foldl push rb0 [PosInf]; rb' = push rb NaN; i = lastSampleI rb'
       in new_SingleChannelRingBuffer 4294967295 2 = Inr rb0
        \<and> lastSampleI (push rb0 NaN) = 0
        \<and> elems (push rb0 NaN) = (elems rb0)[0 := fround NaN]
        \<and> 0 \<le> i \<and> i < 2 \<and> rb_length rb' = 2
        \<and> elems rb' = (elems rb)[nat i := fround NaN]
        \<and> elems rb' ! nat i = fround NaN
        \<and> elems rb' ! 0 = elems rb ! 0)"
  using push_frame[of 2 4294967295 "[PosInf]" NaN 0]
  by (simp add: Let_def push_def rb_length_def typed_set_def numeral_2_eq_2)

text \<open>
  The claim as stated fails for a value that is no 32-bit float: \<^verbatim>\<open>push(0.1)\<close> on a new
  buffer of capacity 1 leaves \<open>13421773 / 2 ^ 27\<close> in slot 0, not the double \<open>0.1\<close>.
\<close>

theorem push_frame_counterexample:
  "new_SingleChannelRingBuffer 4294967295 1 = Inr \<lparr>elems = [Fin 0], lastSampleI = 0\<rparr>
   \<and> dround (1 / 10) = 3602879701896397 / 36028797018963968
   \<and> elems (push \<lparr>elems = [Fin 0], lastSampleI = 0\<rparr>
              (Fin (3602879701896397 / 36028797018963968)))
      = [Fin (13421773 / 134217728)]
   \<and> Fin (13421773 / 134217728) \<noteq> Fin (3602879701896397 / 36028797018963968)"
  by (simp add: new_SingleChannelRingBuffer_def push_def rb_length_def typed_set_def
      f32_tenth double_tenth)

section \<open>An input of no channels\<close>

text \<open>
  C7. A call of \<^verbatim>\<open>process\<close> with an input of no channels returns normally and leaves the
  output channel, the ring buffer and the running sum as they were.
\<close>

theorem zero_channel_pass_through:
  "res_completion (process dev sampleRate g p [] outputChannel smoothingWindowLength) = Returned
   \<and> res_output (process dev sampleRate g p [] outputChannel smoothingWindowLength) = outputChannel
   \<and> res_this (process dev sampleRate g p [] outputChannel smoothingWindowLength) = p"
  by (simp add: process_def Let_def)


section \<open>Construction\<close>

text \<open>The doubles written \<^verbatim>\<open>0.03\<close> and \<^verbatim>\<open>0.02\<close>, and the 32-bit float nearest to \<open>0.02\<close>.\<close>

lemma double_0_03: "dround (3 / 100) = 1080863910568919 / 36028797018963968"
  unfolding dround_def
  by (subst round_fin_eval[where e = "- 6"]) (simp_all add: pow2_def rne_def)

lemma double_0_02: "dround (1 / 50) = 5764607523034235 / 288230376151711744"
  unfolding dround_def
  by (subst round_fin_eval[where e = "- 6"]) (simp_all add: pow2_def rne_def)

lemma float_0_02: "f32 (5764607523034235 / 288230376151711744) = Fin (5368709 / 268435456)"
proof -
  have "round_fin 24 (- 126) (5764607523034235 / 288230376151711744) = 5368709 / 268435456"
    by (subst round_fin_eval[where e = "- 6"]) (simp_all add: pow2_def rne_def)
  then show ?thesis by (simp add: f32_def to_format_def pow2_def)
qed

lemma window_1440:
  "windowLengthNumSecondsToSamples 48000 (1080863910568919 / 36028797018963968) = 1440"
proof -
  have "dround (1080863910568919 / 36028797018963968 * 48000) = 1440"
    unfolding dround_def
    by (subst round_fin_eval[where e = 10]) (simp_all add: pow2_def rne_def)
  then show ?thesis by (simp only: windowLengthNumSecondsToSamples_def Math_round_def) simp
qed

lemma window_960:
  "windowLengthNumSecondsToSamples 48000 (5368709 / 268435456) = 960"
proof -
  have "dround (5368709 / 268435456 * 48000) = 2013265875 / 2097152"
    unfolding dround_def
    by (subst round_fin_eval[where e = 9]) (simp_all add: pow2_def rne_def)
  then show ?thesis by (simp only: windowLengthNumSecondsToSamples_def Math_round_def) simp
qed

lemma window_960_double:
  "windowLengthNumSecondsToSamples 48000 (5764607523034235 / 288230376151711744) = 960"
proof -
  have "dround (5764607523034235 / 288230376151711744 * 48000) = 960"
    unfolding dround_def
    by (subst round_fin_eval[where e = 9]) (simp_all add: pow2_def rne_def)
  then show ?thesis by (simp only: windowLengthNumSecondsToSamples_def Math_round_def) simp
qed

lemma window_24000: "windowLengthNumSecondsToSamples 48000 (1 / 2) = 24000"
proof -
  have "dround (of_int 24000) = of_int 24000" by (rule dround_of_int) simp
  then have "dround (1 / 2 * 48000) = 24000" by simp
  then show ?thesis by (simp only: windowLengthNumSecondsToSamples_def Math_round_def) simp
qed

text \<open>
  C6, as amended. For finite window lengths the constructors validate nothing and there is
  no ConfigurationError: \<^verbatim>\<open>VolumeFilterNode\<close> drops \<open>maxSmoothingWindowLength\<close>, and the
  processor built from its options asks for a ring buffer of
  \<open>round(smoothingWindowLength * sampleRate)\<close> slots. The construction throws exactly when
  the \<^verbatim>\<open>Float32Array\<close> constructor does, a RangeError for a length that is negative, above
  \<open>2 ^ 53 - 1\<close> or more than the engine allocates; otherwise it succeeds, whatever the two
  window lengths are.
\<close>

theorem construction_never_validates:
  "new_VolumeFilterProcessor maxLength sampleRate (VolumeFilterNode maxLen len) =
     (if windowLengthNumSecondsToSamples sampleRate len < 0
         \<or> 2 ^ 53 - 1 < windowLengthNumSecondsToSamples sampleRate len
         \<or> maxLength < windowLengthNumSecondsToSamples sampleRate len
      then Inl RangeError
      else Inr \<lparr>sampleSquaresRingBuffer =
                 \<lparr>elems = replicate (nat (windowLengthNumSecondsToSamples sampleRate len)) (Fin 0),
                  lastSampleI = windowLengthNumSecondsToSamples sampleRate len - 1\<rparr>,
               currWindowSquaresSum = Fin 0,
               options = \<lparr>maxChannels = 32, maxSmoothingWindowLength = len\<rparr>\<rparr>)"
  by (simp add: new_VolumeFilterProcessor_def VolumeFilterNode_def merge_options_def
      new_SingleChannelRingBuffer_def DEFAULT_MAX_NUM_CHANNELS_def Let_def)

text \<open>
  The claim as stated fails at its own example: with \<open>maxSmoothingWindowLength = 0.02\<close> and
  \<open>smoothingWindowLength = 0.03\<close> at 48 kHz, on an engine that allocates arrays of up to
  \<open>2 ^ 32 - 1\<close> elements, the construction succeeds, with a buffer of 1440 slots.
\<close>

theorem construction_counterexample:
  "dround (3 / 100) = 1080863910568919 / 36028797018963968
   \<and> dround (1 / 50) = 5764607523034235 / 288230376151711744
   \<and> new_VolumeFilterProcessor 4294967295 48000
        (VolumeFilterNode (5764607523034235 / 288230376151711744)
           (1080863910568919 / 36028797018963968))
      = Inr \<lparr>sampleSquaresRingBuffer = \<lparr>elems = replicate 1440 (Fin 0), lastSampleI = 1439\<rparr>,
             currWindowSquaresSum = Fin 0,
             options = \<lparr>maxChannels = 32,
                        maxSmoothingWindowLength = 1080863910568919 / 36028797018963968\<rparr>\<rparr>"
  by (intro conjI, rule double_0_03, rule double_0_02)
    (simp add: new_VolumeFilterProcessor_def VolumeFilterNode_def
      merge_options_def new_SingleChannelRingBuffer_def DEFAULT_MAX_NUM_CHANNELS_def Let_def
      window_1440)

section \<open>The once-only diagnostic\<close>

lemma log_inv_process:
  "log_inv g \<Longrightarrow> log_inv (res_globals (process dev sampleRate g p input out w))"
  by (auto simp: process_def Let_def log_inv_def split: if_splits)

lemma log_inv_run:
  "log_inv g \<Longrightarrow> log_inv (fst (fst (run dev sampleRate (g, ps) cs)))"
proof (induction cs arbitrary: g ps)
  case Nil
  then show ?case by simp
next
  case (Cons c cs)
  show ?case
  proof (cases "call_target c < length ps")
    case True
    then show ?thesis
      using Cons.IH[OF log_inv_process[OF Cons.prems]] by (simp add: Let_def)
  next
    case False
    then show ?thesis using Cons.IH[OF Cons.prems] by simp
  qed
qed

text \<open>
  C8. Start with \<^verbatim>\<open>devErrorShown\<close> unset and nothing logged. After any run of \<^verbatim>\<open>process\<close>
  calls on any processors of the scope, \<^verbatim>\<open>console.error\<close> has been called at most once.
\<close>

theorem diagnostic_logged_at_most_once:
  "length (console_error (fst (fst (run dev sampleRate
      (\<lparr>devErrorShown = False, console_error = []\<rparr>, ps) cs)))) \<le> 1"
proof -
  have "log_inv \<lparr>devErrorShown = False, console_error = []\<rparr>" by (simp add: log_inv_def)
  then have "log_inv (fst (fst (run dev sampleRate
      (\<lparr>devErrorShown = False, console_error = []\<rparr>, ps) cs)))"
    by (rule log_inv_run)
  then show ?thesis by (auto simp: log_inv_def split: if_splits)
qed

theorem diagnostic_logged_at_most_once_witness:
  "length (console_error (fst (fst (run True 48000
      (\<lparr>devErrorShown = False, console_error = []\<rparr>,
       [\<lparr>sampleSquaresRingBuffer = \<lparr>elems = replicate 24000 (Fin 0), lastSampleI = 23999\<rparr>,
         currWindowSquaresSum = Fin 0,
         options = \<lparr>maxChannels = 32, maxSmoothingWindowLength = 1 / 2\<rparr>\<rparr>,
        \<lparr>sampleSquaresRingBuffer = \<lparr>elems = replicate 24000 (Fin 0), lastSampleI = 23999\<rparr>,
         currWindowSquaresSum = Fin 0,
         options = \<lparr>maxChannels = 32, maxSmoothingWindowLength = 1 / 2\<rparr>\<rparr>])
      [\<lparr>call_target = 0, call_input = [], call_output = replicate 128 (Fin 0),
        call_smoothingWindowLength = 5368709 / 268435456\<rparr>,
       \<lparr>call_target = 1, call_input = [], call_output = replicate 128 (Fin 0),
        call_smoothingWindowLength = 5368709 / 268435456\<rparr>])))) \<le> 1
   \<and> console_error (fst (fst (run True 48000
      (\<lparr>devErrorShown = False, console_error = []\<rparr>,
       [\<lparr>sampleSquaresRingBuffer = \<lparr>elems = replicate 24000 (Fin 0), lastSampleI = 23999\<rparr>,
         currWindowSquaresSum = Fin 0,
         options = \<lparr>maxChannels = 32, maxSmoothingWindowLength = 1 / 2\<rparr>\<rparr>,
        \<lparr>sampleSquaresRingBuffer = \<lparr>elems = replicate 24000 (Fin 0), lastSampleI = 23999\<rparr>,
         currWindowSquaresSum = Fin 0,
         options = \<lparr>maxChannels = 32, maxSmoothingWindowLength = 1 / 2\<rparr>\<rparr>])
      [\<lparr>call_target = 0, call_input = [], call_output = replicate 128 (Fin 0),
        call_smoothingWindowLength = 5368709 / 268435456\<rparr>,
       \<lparr>call_target = 1, call_input = [], call_output = replicate 128 (Fin 0),
        call_smoothingWindowLength = 5368709 / 268435456\<rparr>])))
     = [(5368709 / 268435456, 1 / 2)]"
  using diagnostic_logged_at_most_once[of True 48000
      "[\<lparr>sampleSquaresRingBuffer = \<lparr>elems = replicate 24000 (Fin 0), lastSampleI = 23999\<rparr>,
         currWindowSquaresSum = Fin 0,
         options = \<lparr>maxChannels = 32, maxSmoothingWindowLength = 1 / 2\<rparr>\<rparr>,
        \<lparr>sampleSquaresRingBuffer = \<lparr>elems = replicate 24000 (Fin 0), lastSampleI = 23999\<rparr>,
         currWindowSquaresSum = Fin 0,
         options = \<lparr>maxChannels = 32, maxSmoothingWindowLength = 1 / 2\<rparr>\<rparr>]"
      "[\<lparr>call_target = 0, call_input = [], call_output = replicate 128 (Fin 0),
        call_smoothingWindowLength = 5368709 / 268435456\<rparr>,
       \<lparr>call_target = 1, call_input = [], call_output = replicate 128 (Fin 0),
        call_smoothingWindowLength = 5368709 / 268435456\<rparr>]"]
  by (simp add: process_def Let_def window_960 window_24000)

section \<open>The clamp of the running sum\<close>

lemma not_negative_Math_max: "not_negative (Math_max v (Fin 0))"
  by (cases v) (simp_all add: Math_max_def not_negative_def)

lemma not_negative_to_format:
  assumes "0 \<le> x"
  shows "not_negative (to_format p emin emax x)"
proof (cases "x = 0")
  case True
  have "\<not> pow2 (emax + 1) \<le> 0" using pow2_pos[of "emax + 1"] by linarith
  then show ?thesis using True by (simp add: to_format_def not_negative_def)
next
  case False
  then have "0 < x" using assms by simp
  then show ?thesis
    using round_fin_nonneg[OF assms, of p emin]
    by (simp add: to_format_def not_negative_def Let_def)
qed

lemma not_negative_Math_sqrt: "not_negative (Math_sqrt v)"
proof (cases v)
  case (Fin a)
  then show ?thesis
    using not_negative_to_format[of "sqrt a" 53 "- 1022" 1023]
    by (simp add: dbl_def) (simp add: not_negative_def)
qed (simp_all add: not_negative_def)

lemma not_negative_fround: "not_negative v \<Longrightarrow> not_negative (fround v)"
proof (cases v)
  case (Fin a)
  assume "not_negative v"
  then have "0 \<le> a" using Fin by (simp add: not_negative_def)
  then show ?thesis using Fin not_negative_to_format[of a 24 "- 126" 127] by (simp add: f32_def)
qed (simp_all add: not_negative_def)

lemma sample_step_result:
  assumes "sample_step dev ws input i st = Inr st'"
  shows "not_negative (currWindowSquaresSum (fst st'))"
    and "\<exists>v. not_negative (fround v) \<and> snd st' = typed_set (snd st) (int i) v"
proof -
  obtain l where l: "getReverse dev (sampleSquaresRingBuffer (fst st)) (ws - 1) = Inr l"
    using assms by (auto simp: sample_step_def Let_def split: sum.splits)
  show "not_negative (currWindowSquaresSum (fst st'))"
    using assms l by (auto simp: sample_step_def Let_def not_negative_Math_max)
  have "snd st' = typed_set (snd st) (int i)
      (Math_sqrt (js_div (currWindowSquaresSum (fst st')) ws))"
    using assms l by (auto simp: sample_step_def Let_def)
  then show "\<exists>v. not_negative (fround v) \<and> snd st' = typed_set (snd st) (int i) v"
    using not_negative_fround[OF not_negative_Math_sqrt] by blast
qed

lemma typed_set_length [simp]: "length (typed_set xs i v) = length xs"
  by (simp add: typed_set_def)

text \<open>The loop keeps the running sum from being negative.\<close>

lemma sample_loop_sum:
  "not_negative (currWindowSquaresSum (fst st)) \<Longrightarrow>
   not_negative (currWindowSquaresSum (fst (fst (sample_loop dev ws input n i st))))"
proof (induction dev ws input n i st rule: sample_loop.induct)
  case (1 dev ws input n i st)
  show ?case
  proof (cases "i < n")
    case True
    show ?thesis
    proof (cases "sample_step dev ws input i st")
      case (Inl e)
      then show ?thesis using True "1.prems" by (subst sample_loop.simps) simp
    next
      case (Inr st')
      then show ?thesis
        using True "1.IH"[OF True Inr sample_step_result(1)[OF Inr]]
        by (subst sample_loop.simps) simp
    qed
  next
    case False
    then show ?thesis using "1.prems" by (subst sample_loop.simps) simp
  qed
qed

text \<open>Every slot of the output is as before the loop or holds a number that is not negative;
  the slots below \<open>i\<close> are as before; after a normal return, the slots from \<open>i\<close> up to
  \<open>n\<close> are not negative.\<close>

lemma sample_loop_output:
  "(\<forall>j < length (snd st).
       snd (fst (sample_loop dev ws input n i st)) ! j = snd st ! j
       \<or> not_negative (snd (fst (sample_loop dev ws input n i st)) ! j))
   \<and> (\<forall>j < i. snd (fst (sample_loop dev ws input n i st)) ! j = snd st ! j)
   \<and> (snd (sample_loop dev ws input n i st) = Returned \<longrightarrow>
        (\<forall>j. i \<le> j \<and> j < n \<and> j < length (snd st) \<longrightarrow>
           not_negative (snd (fst (sample_loop dev ws input n i st)) ! j)))"
proof (induction dev ws input n i st rule: sample_loop.induct)
  case (1 dev ws input n i st)
  show ?case
  proof (cases "i < n")
    case True
    show ?thesis
    proof (cases "sample_step dev ws input i st")
      case (Inl e)
      then show ?thesis using True by (subst (1 2 3 4 5) sample_loop.simps) simp
    next
      case (Inr st')
      let ?r = "sample_loop dev ws input n (Suc i) st'"
      have eq: "sample_loop dev ws input n i st = ?r"
        using True Inr by (subst sample_loop.simps) simp
      obtain v where v: "not_negative (fround v)" "snd st' = typed_set (snd st) (int i) v"
        using sample_step_result(2)[OF Inr] by blast
      have len: "length (snd st') = length (snd st)" using v(2) by simp
      note IH = "1.IH"[OF True Inr]
      have st'_at: "snd st' ! j = snd st ! j \<or> not_negative (snd st' ! j)"
        if "j < length (snd st)" for j
        using v that by (auto simp: typed_set_def nth_list_update)
      have st'_other: "snd st' ! j = snd st ! j" if "j \<noteq> i" for j
        using v(2) that by (auto simp: typed_set_def)
      have st'_i: "not_negative (snd st' ! i)" if "i < length (snd st)"
        using v that by (auto simp: typed_set_def)
      have a: "\<forall>j < length (snd st). snd (fst ?r) ! j = snd st ! j \<or> not_negative (snd (fst ?r) ! j)"
        using IH st'_at len by metis
      have b: "\<forall>j < i. snd (fst ?r) ! j = snd st ! j"
        using IH st'_other by (metis less_Suc_eq less_irrefl_nat)
      have c: "snd ?r = Returned \<longrightarrow>
          (\<forall>j. i \<le> j \<and> j < n \<and> j < length (snd st) \<longrightarrow> not_negative (snd (fst ?r) ! j))"
      proof (intro impI allI)
        fix j assume ret: "snd ?r = Returned" and j: "i \<le> j \<and> j < n \<and> j < length (snd st)"
        show "not_negative (snd (fst ?r) ! j)"
        proof (cases "j = i")
          case True
          have "snd (fst ?r) ! i = snd st' ! i" using IH by simp
          then show ?thesis using st'_i j True by simp
        next
          case False
          then have "Suc i \<le> j \<and> j < n \<and> j < length (snd st')" using j len by simp
          then show ?thesis using IH ret by blast
        qed
      qed
      show ?thesis unfolding eq using a b c by blast
    qed
  next
    case False
    then have "sample_loop dev ws input n i st = (st, Returned)"
      by (subst sample_loop.simps) simp
    then show ?thesis using False by auto
  qed
qed

lemma dbl_0 [simp]: "dbl 0 = Fin 0"
proof -
  have "\<not> pow2 (1023 + 1) \<le> 0" using pow2_pos[of "1023 + 1"] by linarith
  then show ?thesis by (simp add: dbl_def to_format_def)
qed

lemma f32_0 [simp]: "f32 0 = Fin 0"
proof -
  have "\<not> pow2 (127 + 1) \<le> 0" using pow2_pos[of "127 + 1"] by linarith
  then show ?thesis by (simp add: f32_def to_format_def)
qed

lemma js_add_NaN_right [simp]: "js_add a NaN = NaN"
  by (cases a) simp_all

lemma sample_step_rb_length:
  "sample_step dev ws input i st = Inr st' \<Longrightarrow>
   rb_length (sampleSquaresRingBuffer (fst st')) = rb_length (sampleSquaresRingBuffer (fst st))"
  by (auto simp: sample_step_def Let_def split: sum.splits)

lemma sample_step_no_throw:
  "\<not> (dev \<and> rb_length (sampleSquaresRingBuffer (fst st)) \<le> ws - 1) \<Longrightarrow>
   \<exists>st'. sample_step dev ws input i st = Inr st'"
  by (auto simp: sample_step_def Let_def getReverse_def)

text \<open>The loop returns when \<^verbatim>\<open>getReverse\<close> has nothing to throw at.\<close>

lemma sample_loop_returns:
  "\<not> (dev \<and> rb_length (sampleSquaresRingBuffer (fst st)) \<le> ws - 1) \<Longrightarrow>
   snd (sample_loop dev ws input n i st) = Returned"
proof (induction dev ws input n i st rule: sample_loop.induct)
  case (1 dev ws input n i st)
  show ?case
  proof (cases "i < n")
    case True
    obtain st' where s: "sample_step dev ws input i st = Inr st'"
      using sample_step_no_throw[OF "1.prems"] by blast
    have "\<not> (dev \<and> rb_length (sampleSquaresRingBuffer (fst st')) \<le> ws - 1)"
      using "1.prems" sample_step_rb_length[OF s] by simp
    then show ?thesis using True s "1.IH"[OF True s] by (subst sample_loop.simps) simp
  next
    case False
    then show ?thesis by (subst sample_loop.simps) simp
  qed
qed

lemma process_sum:
  "not_negative (currWindowSquaresSum p) \<Longrightarrow>
   not_negative (currWindowSquaresSum (res_this (process dev sampleRate g p input out w)))"
  using sample_loop_sum[of "(p, out)"] by (simp add: process_def Let_def)

lemma process_output:
  "(\<forall>j < length out.
      res_output (process dev sampleRate g p input out w) ! j = out ! j
      \<or> not_negative (res_output (process dev sampleRate g p input out w) ! j))
   \<and> (res_completion (process dev sampleRate g p input out w) = Returned \<and> input \<noteq> [] \<longrightarrow>
       (\<forall>j. j < length (input ! 0) \<and> j < length out \<longrightarrow>
          not_negative (res_output (process dev sampleRate g p input out w) ! j)))"
  using sample_loop_output[of "(p, out)" dev
      "windowLengthNumSecondsToSamples sampleRate w" input "length (input ! 0)" 0]
  by (simp add: process_def Let_def)

lemma run_sum:
  "\<forall>p \<in> set ps. not_negative (currWindowSquaresSum p) \<Longrightarrow>
   \<forall>r \<in> set (snd (run dev sampleRate (g, ps) cs)). not_negative (currWindowSquaresSum (res_this r))"
proof (induction cs arbitrary: g ps)
  case Nil
  then show ?case by simp
next
  case (Cons c cs)
  show ?case
  proof (cases "call_target c < length ps")
    case True
    let ?r = "process dev sampleRate g (ps ! call_target c) (call_input c) (call_output c)
        (call_smoothingWindowLength c)"
    have r: "not_negative (currWindowSquaresSum (res_this ?r))"
      using Cons.prems True by (intro process_sum) simp
    have "\<forall>p \<in> set (ps[call_target c := res_this ?r]). not_negative (currWindowSquaresSum p)"
      using Cons.prems r set_update_subset_insert[of ps "call_target c" "res_this ?r"] by auto
    then show ?thesis using True r Cons.IH by (simp add: Let_def)
  next
    case False
    then show ?thesis using Cons.IH[OF Cons.prems] by simp
  qed
qed

text \<open>
  C1, as amended. After every sample step the running sum is not negative (it is NaN, or
  zero or more), and so it is after every call in any run of \<^verbatim>\<open>process\<close> calls on
  processors whose sum was not negative at the start (a new processor's sum is 0), whatever
  the blocks hold. Every slot of the output channel is as it was before the call or holds
  a number that is not negative (NaN, or zero or more), and after a call that returns, the
  slot of every sample of the block does.
\<close>

theorem never_negative:
  "(sample_step dev ws input i st = Inr st' \<longrightarrow> not_negative (currWindowSquaresSum (fst st')))
   \<and> ((\<forall>p \<in> set ps. not_negative (currWindowSquaresSum p)) \<longrightarrow>
        (\<forall>r \<in> set (snd (run dev sampleRate (g, ps) cs)).
           not_negative (currWindowSquaresSum (res_this r))))
   \<and> (\<forall>j < length out.
        res_output (process dev sampleRate g p input out w) ! j = out ! j
        \<or> not_negative (res_output (process dev sampleRate g p input out w) ! j))
   \<and> (res_completion (process dev sampleRate g p input out w) = Returned \<and> input \<noteq> [] \<longrightarrow>
        (\<forall>j. j < length (input ! 0) \<and> j < length out \<longrightarrow>
           not_negative (res_output (process dev sampleRate g p input out w) ! j)))"
proof (intro conjI impI)
  assume "sample_step dev ws input i st = Inr st'"
  then show "not_negative (currWindowSquaresSum (fst st'))" by (rule sample_step_result(1))
next
  assume "\<forall>p \<in> set ps. not_negative (currWindowSquaresSum p)"
  then show "\<forall>r \<in> set (snd (run dev sampleRate (g, ps) cs)).
      not_negative (currWindowSquaresSum (res_this r))"
    by (rule run_sum)
next
  show "\<forall>j < length out.
      res_output (process dev sampleRate g p input out w) ! j = out ! j
      \<or> not_negative (res_output (process dev sampleRate g p input out w) ! j)"
    using process_output[of out dev sampleRate g p input w] by blast
next
  assume "res_completion (process dev sampleRate g p input out w) = Returned \<and> input \<noteq> []"
  then show "\<forall>j. j < length (input ! 0) \<and> j < length out \<longrightarrow>
      not_negative (res_output (process dev sampleRate g p input out w) ! j)"
    using process_output[of out dev sampleRate g p input w] by blast
qed

lemma sample_step_zero:
  "sample_step False 1 [[Fin 0]] 0
     (\<lparr>sampleSquaresRingBuffer = \<lparr>elems = [Fin 0], lastSampleI = 0\<rparr>,
       currWindowSquaresSum = Fin 0,
       options = \<lparr>maxChannels = 32, maxSmoothingWindowLength = 1 / 32768\<rparr>\<rparr>, [Fin 0])
   = Inr (\<lparr>sampleSquaresRingBuffer = \<lparr>elems = [Fin 0], lastSampleI = 0\<rparr>,
       currWindowSquaresSum = Fin 0,
       options = \<lparr>maxChannels = 32, maxSmoothingWindowLength = 1 / 32768\<rparr>\<rparr>, [Fin 0])"
  by (simp add: sample_step_def Let_def getReverse_def rb_length_def js_rem_def typed_get_def
      signed_modulo_int_def allChannelsSampleSquareSum_def sample_at_def js_sub_def
      Math_max_def push_def typed_set_def)

theorem never_negative_witness:
  "sample_step False 1 [[Fin 0]] 0
     (\<lparr>sampleSquaresRingBuffer = \<lparr>elems = [Fin 0], lastSampleI = 0\<rparr>,
       currWindowSquaresSum = Fin 0,
       options = \<lparr>maxChannels = 32, maxSmoothingWindowLength = 1 / 32768\<rparr>\<rparr>, [Fin 0])
   = Inr (\<lparr>sampleSquaresRingBuffer = \<lparr>elems = [Fin 0], lastSampleI = 0\<rparr>,
       currWindowSquaresSum = Fin 0,
       options = \<lparr>maxChannels = 32, maxSmoothingWindowLength = 1 / 32768\<rparr>\<rparr>, [Fin 0])
   \<and> not_negative (Fin 0)
   \<and> not_negative (currWindowSquaresSum (res_this (process False 48000
        \<lparr>devErrorShown = False, console_error = []\<rparr>
        \<lparr>sampleSquaresRingBuffer = \<lparr>elems = [Fin 0], lastSampleI = 0\<rparr>,
          currWindowSquaresSum = Fin 0,
          options = \<lparr>maxChannels = 32, maxSmoothingWindowLength = 1 / 32768\<rparr>\<rparr>
        [[Fin 0]] [Fin 0] (1 / 32768))))
   \<and> res_completion (process False 48000
        \<lparr>devErrorShown = False, console_error = []\<rparr>
        \<lparr>sampleSquaresRingBuffer = \<lparr>elems = [Fin 0], lastSampleI = 0\<rparr>,
          currWindowSquaresSum = Fin 0,
          options = \<lparr>maxChannels = 32, maxSmoothingWindowLength = 1 / 32768\<rparr>\<rparr>
        [[Fin 0]] [Fin 0] (1 / 32768)) = Returned
   \<and> not_negative (res_output (process False 48000
        \<lparr>devErrorShown = False, console_error = []\<rparr>
        \<lparr>sampleSquaresRingBuffer = \<lparr>elems = [Fin 0], lastSampleI = 0\<rparr>,
          currWindowSquaresSum = Fin 0,
          options = \<lparr>maxChannels = 32, maxSmoothingWindowLength = 1 / 32768\<rparr>\<rparr>
        [[Fin 0]] [Fin 0] (1 / 32768)) ! 0)"
proof -
  let ?p = "\<lparr>sampleSquaresRingBuffer = \<lparr>elems = [Fin 0], lastSampleI = 0\<rparr>,
          currWindowSquaresSum = Fin 0,
          options = \<lparr>maxChannels = 32, maxSmoothingWindowLength = 1 / 32768\<rparr>\<rparr>"
  let ?g = "\<lparr>devErrorShown = False, console_error = []\<rparr>"
  let ?c = "\<lparr>call_target = 0, call_input = [[Fin 0]], call_output = [Fin 0],
          call_smoothingWindowLength = 1 / 32768\<rparr>"
  have ret: "res_completion (process False 48000 ?g ?p [[Fin 0]] [Fin 0] (1 / 32768)) = Returned"
    by (simp add: process_def Let_def sample_loop_returns)
  have nn: "not_negative (Fin 0)" by (simp add: not_negative_def)
  have run: "snd (run False 48000 (?g, [?p]) [?c])
      = [process False 48000 ?g ?p [[Fin 0]] [Fin 0] (1 / 32768)]"
    by (simp add: Let_def)
  show ?thesis
    using never_negative[of False 1 "[[Fin 0]]" 0 "(?p, [Fin 0])" "(?p, [Fin 0])" "[?p]"
        48000 ?g "[?c]" "[Fin 0]" ?p "1 / 32768"] sample_step_zero ret nn
    unfolding run by simp
qed

lemma sample_step_nan:
  assumes "allChannelsSampleSquareSum input i = NaN"
    and "sample_step dev ws input i st = Inr st'"
  shows "snd st' = typed_set (snd st) (int i) NaN"
  using assms by (auto simp: sample_step_def Let_def Math_max_def split: sum.splits)

text \<open>
  The claim as stated fails for a block that holds NaN. Take the processor constructed for
  a window of 0.02 s at 48 kHz and a block of one channel of 128 NaN samples: the call
  returns, the first output sample is NaN, and \<^verbatim>\<open>NaN >= 0\<close> is false.
\<close>

theorem never_negative_counterexample:
  "new_VolumeFilterProcessor 4294967295 48000
      (VolumeFilterNode (5764607523034235 / 288230376151711744)
         (5764607523034235 / 288230376151711744))
     = Inr \<lparr>sampleSquaresRingBuffer = \<lparr>elems = replicate 960 (Fin 0), lastSampleI = 959\<rparr>,
          currWindowSquaresSum = Fin 0,
          options = \<lparr>maxChannels = 32,
                     maxSmoothingWindowLength = 5764607523034235 / 288230376151711744\<rparr>\<rparr>
   \<and> res_completion (process True 48000 \<lparr>devErrorShown = False, console_error = []\<rparr>
        \<lparr>sampleSquaresRingBuffer = \<lparr>elems = replicate 960 (Fin 0), lastSampleI = 959\<rparr>,
          currWindowSquaresSum = Fin 0,
          options = \<lparr>maxChannels = 32,
                     maxSmoothingWindowLength = 5764607523034235 / 288230376151711744\<rparr>\<rparr>
        [replicate 128 NaN] (replicate 128 (Fin 0)) (5368709 / 268435456)) = Returned
   \<and> res_output (process True 48000 \<lparr>devErrorShown = False, console_error = []\<rparr>
        \<lparr>sampleSquaresRingBuffer = \<lparr>elems = replicate 960 (Fin 0), lastSampleI = 959\<rparr>,
          currWindowSquaresSum = Fin 0,
          options = \<lparr>maxChannels = 32,
                     maxSmoothingWindowLength = 5764607523034235 / 288230376151711744\<rparr>\<rparr>
        [replicate 128 NaN] (replicate 128 (Fin 0)) (5368709 / 268435456)) ! 0 = NaN
   \<and> \<not> js_ge NaN (Fin 0)"
proof -
  let ?p = "\<lparr>sampleSquaresRingBuffer = \<lparr>elems = replicate 960 (Fin 0), lastSampleI = 959\<rparr>,
          currWindowSquaresSum = Fin 0,
          options = \<lparr>maxChannels = 32,
                     maxSmoothingWindowLength = 5764607523034235 / 288230376151711744\<rparr>\<rparr>"
  let ?out = "replicate 128 (Fin 0)"
  let ?in = "[replicate 128 NaN]"
  have new: "new_VolumeFilterProcessor 4294967295 48000
      (VolumeFilterNode (5764607523034235 / 288230376151711744)
         (5764607523034235 / 288230376151711744)) = Inr ?p"
    by (simp add: new_VolumeFilterProcessor_def VolumeFilterNode_def merge_options_def
        new_SingleChannelRingBuffer_def DEFAULT_MAX_NUM_CHANNELS_def Let_def window_960_double)
  have nothrow: "\<not> (True \<and> rb_length (sampleSquaresRingBuffer (fst (?p, ?out))) \<le> 960 - 1)"
    by (simp add: rb_length_def)
  have ret: "snd (sample_loop True 960 ?in 128 0 (?p, ?out)) = Returned"
    using nothrow by (rule sample_loop_returns)
  obtain st' where st': "sample_step True 960 ?in 0 (?p, ?out) = Inr st'"
    using sample_step_no_throw[OF nothrow] by blast
  have "allChannelsSampleSquareSum ?in 0 = NaN"
    by (simp add: allChannelsSampleSquareSum_def sample_at_def typed_get_def)
  then have "snd st' = typed_set ?out (int 0) NaN" using sample_step_nan[OF _ st'] by simp
  then have at0: "snd st' ! 0 = NaN" by (simp add: typed_set_def)
  have "sample_loop True 960 ?in 128 0 (?p, ?out) = sample_loop True 960 ?in 128 (Suc 0) st'"
    using st' by (subst sample_loop.simps) simp
  moreover have "snd (fst (sample_loop True 960 ?in 128 (Suc 0) st')) ! 0 = snd st' ! 0"
    using sample_loop_output[of st' True 960 ?in 128 "Suc 0"] by simp
  ultimately have out0: "snd (fst (sample_loop True 960 ?in 128 0 (?p, ?out))) ! 0 = NaN"
    using at0 by simp
  have proc: "process True 48000 \<lparr>devErrorShown = False, console_error = []\<rparr> ?p ?in ?out
        (5368709 / 268435456)
      = \<lparr>res_globals = \<lparr>devErrorShown = False, console_error = []\<rparr>,
         res_this = fst (fst (sample_loop True 960 ?in 128 0 (?p, ?out))),
         res_output = snd (fst (sample_loop True 960 ?in 128 0 (?p, ?out))),
         res_completion = snd (sample_loop True 960 ?in 128 0 (?p, ?out))\<rparr>"
    by (simp add: process_def Let_def window_960 window_960_double SAMPLES_PER_QUANTUM_def)
  show ?thesis unfolding proc using new ret out0 by simp
qed

section \<open>The steady state\<close>

text \<open>A value well inside the range of a format does not overflow.\<close>

lemma to_format_fin:
  assumes "\<bar>x\<bar> \<le> pow2 emax" and "emin \<le> emax" and "1 \<le> p"
  shows "to_format p emin emax x = Fin (round_fin p emin x)"
proof (cases "x = 0")
  case True
  have "\<not> pow2 (emax + 1) \<le> 0" using pow2_pos[of "emax + 1"] by linarith
  then show ?thesis using True by (simp add: to_format_def)
next
  case False
  let ?e = "\<lfloor>log 2 \<bar>x\<bar>\<rfloor>"
  have "pow2 ?e < pow2 (emax + 1)"
    using exponent_bounds(1)[OF False] assms(1) pow2_strict_mono[of emax "emax + 1"] by linarith
  then have "?e \<le> emax" by (simp add: pow2_less_iff)
  then have "max ?e emin - (int p - 1) \<le> emax" using assms(2,3) by simp
  then have "quantum p emin x \<le> pow2 emax" unfolding quantum_def by (rule pow2_mono)
  then have "\<bar>round_fin p emin x\<bar> \<le> pow2 emax + pow2 emax / 2"
    using round_fin_error[of p emin x] assms(1) by linarith
  moreover have "pow2 (emax + 1) = 2 * pow2 emax" using pow2_add[of emax 1] by (simp add: pow2_def)
  ultimately have "\<not> pow2 (emax + 1) \<le> \<bar>round_fin p emin x\<bar>"
    using pow2_pos[of emax] by linarith
  then show ?thesis by (simp add: to_format_def)
qed

lemma dbl_fin: "\<bar>x\<bar> \<le> 2 ^ 1023 \<Longrightarrow> dbl x = Fin (dround x)"
  unfolding dbl_def dround_def by (rule to_format_fin) (simp_all add: pow2_def)

lemma f32_fin: "\<bar>x\<bar> \<le> 2 ^ 127 \<Longrightarrow> f32 x = Fin (round_fin 24 (- 126) x)"
  unfolding f32_def by (rule to_format_fin) (simp_all add: pow2_def)

lemma dbl_exact:
  assumes "\<bar>m\<bar> < 2 ^ 53" "- 1074 \<le> j" "j \<le> 900"
  shows "dbl (of_int m * pow2 j) = Fin (of_int m * pow2 j)"
proof -
  have "\<bar>of_int m * pow2 j\<bar> = \<bar>of_int m\<bar> * pow2 j" by (simp add: abs_mult)
  also have "\<dots> \<le> 2 ^ 53 * pow2 j"
    using assms(1) by (intro mult_right_mono) (simp_all add: abs_le_iff, linarith+)
  also have "\<dots> \<le> 2 ^ 53 * pow2 900" using pow2_mono[OF assms(3)] by simp
  also have "\<dots> \<le> 2 ^ 1023" by (simp add: pow2_def)
  finally show ?thesis using dround_exact[OF assms(1,2)] by (simp add: dbl_fin)
qed

lemma dbl_of_int: "\<bar>m\<bar> < 2 ^ 53 \<Longrightarrow> dbl (of_int m) = Fin (of_int m)"
  using dbl_exact[of m 0] by simp

lemma f32_exact:
  assumes "\<bar>m\<bar> < 2 ^ 24" "- 149 \<le> j" "j \<le> 100"
  shows "f32 (of_int m * pow2 j) = Fin (of_int m * pow2 j)"
proof -
  have "\<bar>of_int m * pow2 j\<bar> = \<bar>of_int m\<bar> * pow2 j" by (simp add: abs_mult)
  also have "\<dots> \<le> 2 ^ 24 * pow2 j"
    using assms(1) by (intro mult_right_mono) (simp_all add: abs_le_iff, linarith+)
  also have "\<dots> \<le> 2 ^ 24 * pow2 100" using pow2_mono[OF assms(3)] by simp
  also have "\<dots> \<le> 2 ^ 127" by (simp add: pow2_def)
  finally show ?thesis
    using round_fin_exact[of m 24 "- 126" j] assms(1,2) by (simp add: f32_fin)
qed

lemma dbl_1 [simp]: "dbl 1 = Fin 1"
  using dbl_of_int[of 1] by simp

lemma f32_1 [simp]: "f32 1 = Fin 1"
  using f32_exact[of 1 0] by simp

lemma getReverse_no_throw:
  "\<not> (dev \<and> rb_length rb \<le> d) \<Longrightarrow> getReverse dev rb d = getReverse False rb d"
  by (simp add: getReverse_def)

text \<open>A push moves every value one step deeper.\<close>

lemma depths_hold_push:
  assumes "rb_wf rb" "hi \<le> rb_length rb" "depths_hold rb lo hi v" "0 \<le> lo"
  shows "depths_hold (push rb x) (lo + 1) hi v"
  unfolding depths_hold_def
proof (intro allI impI)
  fix d assume d: "lo + 1 \<le> d \<and> d < hi"
  then have "getReverse False (push rb x) d =
      (if d = 0 then Inr (Some (fround x)) else getReverse False rb (d - 1))"
    using assms(1,2,4) by (intro getReverse_push) simp_all
  moreover have "getReverse False rb (d - 1) = Inr (Some v)"
    using assms(3) d by (simp add: depths_hold_def)
  ultimately show "getReverse False (push rb x) d = Inr (Some v)" using d assms(4) by simp
qed

lemma window_holds_push:
  assumes "rb_wf rb" "ws \<le> rb_length rb" "depths_hold rb 0 ws v" "fround x = v"
  shows "depths_hold (push rb x) 0 ws v"
  unfolding depths_hold_def
proof (intro allI impI)
  fix d assume d: "0 \<le> d \<and> d < ws"
  show "getReverse False (push rb x) d = Inr (Some v)"
  proof (cases "d = 0")
    case True
    have "0 < rb_length rb" using assms(1) by (simp add: rb_wf_def)
    then show ?thesis using getReverse_push[OF assms(1), of 0 False x] True assms(4) by simp
  next
    case False
    then have "depths_hold (push rb x) (0 + 1) ws v"
      using assms(1-3) by (intro depths_hold_push) simp_all
    then show ?thesis using d False by (simp add: depths_hold_def)
  qed
qed

lemma unit_column:
  "i < n \<Longrightarrow> js_div (allChannelsSampleSquareSum [replicate n (Fin 1)] i) (int (length [replicate n (Fin 1)])) = Fin 1"
  by (simp add: allChannelsSampleSquareSum_def sample_at_def typed_get_def)

lemma unit_sample_step:
  assumes wf: "rb_wf (sampleSquaresRingBuffer p)"
    and ws: "1 \<le> ws" "ws \<le> rb_length (sampleSquaresRingBuffer p)" "ws < 2 ^ 53"
    and win: "depths_hold (sampleSquaresRingBuffer p) 0 ws (Fin 1)"
    and sum: "currWindowSquaresSum p = Fin (of_int ws)"
    and i: "i < n"
  shows "sample_step dev ws [replicate n (Fin 1)] i (p, out) =
     Inr (p\<lparr>sampleSquaresRingBuffer := push (sampleSquaresRingBuffer p) (Fin 1),
            currWindowSquaresSum := Fin (of_int ws)\<rparr>,
          typed_set out (int i) (Fin 1))"
proof -
  have "getReverse dev (sampleSquaresRingBuffer p) (ws - 1)
      = getReverse False (sampleSquaresRingBuffer p) (ws - 1)"
    using ws by (intro getReverse_no_throw) simp
  also have "\<dots> = Inr (Some (Fin 1))" using win ws by (simp add: depths_hold_def)
  finally have g: "getReverse dev (sampleSquaresRingBuffer p) (ws - 1) = Inr (Some (Fin 1))" .
  have d1: "dbl (of_int ws - 1) = Fin (of_int ws - 1)"
    using dbl_of_int[of "ws - 1"] ws by simp
  have d2: "dbl (of_int ws) = Fin (of_int ws)"
    using dbl_of_int[of ws] ws by simp
  have s2: "js_add (js_sub (Fin (of_int ws)) (Fin 1)) (Fin 1) = Fin (of_int ws)"
    by (simp add: js_sub_def d1 d2)
  have s3: "Math_max (Fin (of_int ws)) (Fin 0) = Fin (of_int ws)"
    using ws by (simp add: Math_max_def)
  have v: "Math_sqrt (js_div (Fin (of_int ws)) ws) = Fin 1" using ws by simp
  show ?thesis
    unfolding sample_step_def Let_def fst_conv snd_conv unit_column[OF i] g sum
    using ws(1) by (simp add: s2 s3 v del: js_div.simps)
qed

lemma unit_sample_loop:
  assumes "rb_wf (sampleSquaresRingBuffer (fst st))"
    and "1 \<le> ws" "ws \<le> rb_length (sampleSquaresRingBuffer (fst st))" "ws < 2 ^ 53"
    and "depths_hold (sampleSquaresRingBuffer (fst st)) 0 ws (Fin 1)"
    and "currWindowSquaresSum (fst st) = Fin (of_int ws)"
  shows "snd (sample_loop dev ws [replicate n (Fin 1)] n i st) = Returned
    \<and> currWindowSquaresSum (fst (fst (sample_loop dev ws [replicate n (Fin 1)] n i st))) = Fin (of_int ws)
    \<and> (\<forall>j. i \<le> j \<and> j < n \<and> j < length (snd st) \<longrightarrow>
          snd (fst (sample_loop dev ws [replicate n (Fin 1)] n i st)) ! j = Fin 1)"
  using assms
proof (induction dev ws "[replicate n (Fin 1)]" n i st rule: sample_loop.induct)
  case (1 dev ws n i st)
  let ?in = "[replicate n (Fin 1)]"
  show ?case
  proof (cases "i < n")
    case True
    obtain p out where st: "st = (p, out)" by (cases st)
    let ?p' = "p\<lparr>sampleSquaresRingBuffer := push (sampleSquaresRingBuffer p) (Fin 1),
        currWindowSquaresSum := Fin (of_int ws)\<rparr>"
    let ?st' = "(?p', typed_set out (int i) (Fin 1))"
    have step: "sample_step dev ws ?in i st = Inr ?st'"
      unfolding st using "1.prems" True by (intro unit_sample_step) (simp_all add: st)
    have eq: "sample_loop dev ws ?in n i st = sample_loop dev ws ?in n (Suc i) ?st'"
      using True step by (subst sample_loop.simps) simp
    have IH: "snd (sample_loop dev ws ?in n (Suc i) ?st') = Returned
      \<and> currWindowSquaresSum (fst (fst (sample_loop dev ws ?in n (Suc i) ?st'))) = Fin (of_int ws)
      \<and> (\<forall>j. Suc i \<le> j \<and> j < n \<and> j < length (snd ?st') \<longrightarrow>
            snd (fst (sample_loop dev ws ?in n (Suc i) ?st')) ! j = Fin 1)"
      using "1.prems" st
      by (intro "1.hyps"[OF True step]) (simp_all add: rb_wf_push window_holds_push)
    have keep: "snd (fst (sample_loop dev ws ?in n (Suc i) ?st')) ! i = snd ?st' ! i"
      using sample_loop_output[of ?st' dev ws ?in n "Suc i"] by simp
    have at_i: "i < length out \<Longrightarrow> snd ?st' ! i = Fin 1" by (simp add: typed_set_def)
    have "snd (fst (sample_loop dev ws ?in n (Suc i) ?st')) ! j = Fin 1"
      if "i \<le> j \<and> j < n \<and> j < length (snd st)" for j
    proof (cases "j = i")
      case True
      then show ?thesis using keep at_i that st by simp
    next
      case False
      then have "Suc i \<le> j \<and> j < n \<and> j < length (snd ?st')" using that st by simp
      then show ?thesis using IH by blast
    qed
    then show ?thesis unfolding eq using IH by blast
  next
    case False
    then have "sample_loop dev ws ?in n i st = (st, Returned)" by (subst sample_loop.simps) simp
    then show ?thesis using False "1.prems" by auto
  qed
qed

lemma window_holds_replicate:
  assumes "rb_wf rb" "elems rb = replicate k v" "ws \<le> rb_length rb"
  shows "depths_hold rb 0 ws v"
  unfolding depths_hold_def
proof (intro allI impI)
  fix d assume d: "0 \<le> d \<and> d < ws"
  let ?i = "(lastSampleI rb - d + rb_length rb) mod rb_length rb"
  have k: "0 < rb_length rb" using assms(1) by (simp add: rb_wf_def)
  have "getReverse False rb d = Inr (Some (elems rb ! nat ?i))"
    using assms(1,3) d by (intro getReverse_in_range) (simp_all add: rb_wf_def)
  moreover have "0 \<le> ?i" "?i < rb_length rb" using k by simp_all
  then have "nat ?i < k" using assms(2) by (simp add: rb_length_def)
  ultimately show "getReverse False rb d = Inr (Some v)" using assms(2) by simp
qed

text \<open>
  C2. Let the window be \<open>ws \<ge> 1\<close> samples long and fit the ring buffer, let the last \<open>ws\<close>
  values pushed all be 1.0 and the running sum be \<open>ws\<close>. Then \<^verbatim>\<open>process\<close> on a block of one
  channel of constant 1.0 returns, every output sample of the block is exactly 1.0, and
  the running sum is \<open>ws\<close> again. (In a development build the block has the 128 samples
  that the build insists on.)
\<close>

theorem steady_state_unit:
  assumes "windowLengthNumSecondsToSamples sampleRate w = ws"
    and "1 \<le> ws" "ws \<le> rb_length (sampleSquaresRingBuffer p)" "ws < 2 ^ 53"
    and "rb_wf (sampleSquaresRingBuffer p)"
    and "depths_hold (sampleSquaresRingBuffer p) 0 ws (Fin 1)"
    and "currWindowSquaresSum p = Fin (of_int ws)"
    and "dev \<longrightarrow> n = SAMPLES_PER_QUANTUM"
  shows "res_completion (process dev sampleRate g p [replicate n (Fin 1)] out w) = Returned
    \<and> (\<forall>i. i < n \<and> i < length out \<longrightarrow>
          res_output (process dev sampleRate g p [replicate n (Fin 1)] out w) ! i = Fin 1)
    \<and> currWindowSquaresSum (res_this (process dev sampleRate g p [replicate n (Fin 1)] out w))
        = Fin (of_int ws)"
  using unit_sample_loop[of "(p, out)" ws dev n 0] assms
  by (simp add: process_def Let_def)

theorem steady_state_unit_witness:
  "windowLengthNumSecondsToSamples 48000 (5368709 / 268435456) = 960
   \<and> (1::int) \<le> 960
   \<and> 960 \<le> rb_length \<lparr>elems = replicate 960 (Fin 1), lastSampleI = 959\<rparr>
   \<and> (960::int) < 2 ^ 53
   \<and> rb_wf \<lparr>elems = replicate 960 (Fin 1), lastSampleI = 959\<rparr>
   \<and> depths_hold \<lparr>elems = replicate 960 (Fin 1), lastSampleI = 959\<rparr> 0 960 (Fin 1)
   \<and> (128::nat) = SAMPLES_PER_QUANTUM
   \<and> res_completion (process True 48000 \<lparr>devErrorShown = False, console_error = []\<rparr>
        \<lparr>sampleSquaresRingBuffer = \<lparr>elems = replicate 960 (Fin 1), lastSampleI = 959\<rparr>,
          currWindowSquaresSum = Fin 960,
          options = \<lparr>maxChannels = 32,
                     maxSmoothingWindowLength = 5764607523034235 / 288230376151711744\<rparr>\<rparr>
        [replicate 128 (Fin 1)] (replicate 128 (Fin 0)) (5368709 / 268435456)) = Returned
   \<and> res_output (process True 48000 \<lparr>devErrorShown = False, console_error = []\<rparr>
        \<lparr>sampleSquaresRingBuffer = \<lparr>elems = replicate 960 (Fin 1), lastSampleI = 959\<rparr>,
          currWindowSquaresSum = Fin 960,
          options = \<lparr>maxChannels = 32,
                     maxSmoothingWindowLength = 5764607523034235 / 288230376151711744\<rparr>\<rparr>
        [replicate 128 (Fin 1)] (replicate 128 (Fin 0)) (5368709 / 268435456)) ! 0 = Fin 1
   \<and> res_output (process True 48000 \<lparr>devErrorShown = False, console_error = []\<rparr>
        \<lparr>sampleSquaresRingBuffer = \<lparr>elems = replicate 960 (Fin 1), lastSampleI = 959\<rparr>,
          currWindowSquaresSum = Fin 960,
          options = \<lparr>maxChannels = 32,
                     maxSmoothingWindowLength = 5764607523034235 / 288230376151711744\<rparr>\<rparr>
        [replicate 128 (Fin 1)] (replicate 128 (Fin 0)) (5368709 / 268435456)) ! 127 = Fin 1"
proof -
  let ?rb = "\<lparr>elems = replicate 960 (Fin 1), lastSampleI = 959\<rparr>"
  let ?p = "\<lparr>sampleSquaresRingBuffer = ?rb, currWindowSquaresSum = Fin 960,
          options = \<lparr>maxChannels = 32,
                     maxSmoothingWindowLength = 5764607523034235 / 288230376151711744\<rparr>\<rparr>"
  have wf: "rb_wf ?rb" by (simp add: rb_wf_def rb_length_def)
  have len: "960 \<le> rb_length ?rb" by (simp add: rb_length_def)
  have win: "depths_hold ?rb 0 960 (Fin 1)"
    using wf _ len by (rule window_holds_replicate) simp
  have q: "(128::nat) = SAMPLES_PER_QUANTUM" by (simp add: SAMPLES_PER_QUANTUM_def)
  show ?thesis
    using steady_state_unit[of 48000 "5368709 / 268435456" 960 ?p True 128
        "\<lparr>devErrorShown = False, console_error = []\<rparr>" "replicate 128 (Fin 0)"]
      window_960 wf len win q
    by simp
qed


section \<open>The transient fill\<close>

lemma round_fin_bounds:
  assumes "pow2 emin \<le> x"
  shows "x * (1 - pow2 (- int p)) \<le> round_fin p emin x"
    and "round_fin p emin x \<le> x * (1 + pow2 (- int p))"
proof -
  have "0 < x" using assms pow2_pos[of emin] by linarith
  then have "\<bar>round_fin p emin x - x\<bar> \<le> x * pow2 (- int p)"
    using round_fin_rel_error[of emin x p] assms by simp
  then show "x * (1 - pow2 (- int p)) \<le> round_fin p emin x"
    and "round_fin p emin x \<le> x * (1 + pow2 (- int p))"
    by (simp_all add: algebra_simps abs_le_iff)
qed

text \<open>The three roundings of an output sample move it by a factor close to 1.\<close>

lemma rounded_volume_bounds:
  assumes "1 / 4096 \<le> a" "a \<le> 1"
  shows "sqrt (a * (1 - 1 / 2 ^ 53)) * ((1 - 1 / 2 ^ 53) * (1 - 1 / 2 ^ 24)) \<le> rounded_volume a"
    and "rounded_volume a \<le> sqrt (a * (1 + 1 / 2 ^ 53)) * ((1 + 1 / 2 ^ 53) * (1 + 1 / 2 ^ 24))"
proof -
  define u :: real where "u = 1 / 2 ^ 53"
  define v :: real where "v = 1 / 2 ^ 24"
  define d where "d = dround a"
  define r where "r = dround (sqrt d)"
  have u: "pow2 (- int 53) = u" by (simp add: pow2_def u_def)
  have v: "pow2 (- int 24) = v" by (simp add: pow2_def v_def)
  have upos: "0 < u" "u < 1 / 2" "0 < v" "v < 1 / 2" by (simp_all add: u_def v_def)
  have "pow2 (- 1022) \<le> a" using assms(1) by (simp add: pow2_def)
  then have d: "a * (1 - u) \<le> d" "d \<le> a * (1 + u)"
    using round_fin_bounds[of "- 1022" a 53] unfolding d_def dround_def u by simp_all
  have "a * (1 / 2) \<le> a * (1 - u)" using assms(1) upos by (intro mult_left_mono) simp_all
  then have dlow: "1 / 8192 \<le> d" using d(1) assms(1) by linarith
  have "(1 / 128)\<^sup>2 \<le> d" using dlow by (simp add: power2_eq_square)
  then have slow: "1 / 128 \<le> sqrt d" by (metis real_le_rsqrt)
  then have "pow2 (- 1022) \<le> sqrt d" by (simp add: pow2_def)
  then have r: "sqrt d * (1 - u) \<le> r" "r \<le> sqrt d * (1 + u)"
    using round_fin_bounds[of "- 1022" "sqrt d" 53] unfolding r_def dround_def u by simp_all
  have "0 \<le> sqrt d" using slow by linarith
  then have "sqrt d * (1 / 2) \<le> sqrt d * (1 - u)" using upos by (intro mult_left_mono) simp_all
  then have rlow: "1 / 256 \<le> r" using r(1) slow by linarith
  then have "pow2 (- 126) \<le> r" by (simp add: pow2_def)
  then have o: "r * (1 - v) \<le> rounded_volume a" "rounded_volume a \<le> r * (1 + v)"
    using round_fin_bounds[of "- 126" r 24]
    unfolding rounded_volume_def r_def[symmetric] d_def[symmetric] v by simp_all
  have s: "sqrt (a * (1 - u)) \<le> sqrt d" "sqrt d \<le> sqrt (a * (1 + u))" using d by simp_all
  have "sqrt (a * (1 - u)) * ((1 - u) * (1 - v)) \<le> sqrt d * ((1 - u) * (1 - v))"
    using s(1) upos by (intro mult_right_mono) simp_all
  also have "\<dots> = (sqrt d * (1 - u)) * (1 - v)" by simp
  also have "\<dots> \<le> r * (1 - v)" using r(1) upos by (intro mult_right_mono) simp_all
  finally show "sqrt (a * (1 - 1 / 2 ^ 53)) * ((1 - 1 / 2 ^ 53) * (1 - 1 / 2 ^ 24)) \<le> rounded_volume a"
    using o(1) unfolding u_def v_def by linarith
  have "rounded_volume a \<le> r * (1 + v)" by (rule o(2))
  also have "\<dots> \<le> (sqrt d * (1 + u)) * (1 + v)" using r(2) upos by (intro mult_right_mono) simp_all
  also have "\<dots> = sqrt d * ((1 + u) * (1 + v))" by simp
  also have "\<dots> \<le> sqrt (a * (1 + u)) * ((1 + u) * (1 + v))"
    using s(2) upos by (intro mult_right_mono) simp_all
  finally show "rounded_volume a \<le> sqrt (a * (1 + 1 / 2 ^ 53)) * ((1 + 1 / 2 ^ 53) * (1 + 1 / 2 ^ 24))"
    unfolding u_def v_def .
qed

lemma sqrt_times: "0 \<le> c \<Longrightarrow> sqrt x * c = sqrt (x * c\<^sup>2)"
  by (simp add: real_sqrt_mult)

lemma rounded_volume_strict_mono:
  assumes "1 / 4096 \<le> a" "b \<le> 1" "a * (128 / 127) \<le> b"
  shows "rounded_volume a < rounded_volume b"
proof -
  define c1 :: real where "c1 = (1 + 1 / 2 ^ 53) * (1 + 1 / 2 ^ 24)"
  define c2 :: real where "c2 = (1 - 1 / 2 ^ 53) * (1 - 1 / 2 ^ 24)"
  have apos: "0 < a" using assms(1) by linarith
  have ab: "a \<le> b" using assms(3) apos by (simp add: field_simps) 
  have num: "(1 + 1 / 2 ^ 53) * c1\<^sup>2 < (128 / 127) * ((1 - 1 / 2 ^ 53) * c2\<^sup>2)"
    by (simp add: c1_def c2_def power2_eq_square)
  have "a * ((1 + 1 / 2 ^ 53) * c1\<^sup>2) < a * ((128 / 127) * ((1 - 1 / 2 ^ 53) * c2\<^sup>2))"
    using num apos by (rule mult_strict_left_mono)
  also have "\<dots> = (a * (128 / 127)) * ((1 - 1 / 2 ^ 53) * c2\<^sup>2)" by simp
  also have "\<dots> \<le> b * ((1 - 1 / 2 ^ 53) * c2\<^sup>2)"
    using assms(3) by (intro mult_right_mono) (simp_all add: c2_def)
  finally have "a * (1 + 1 / 2 ^ 53) * c1\<^sup>2 < b * (1 - 1 / 2 ^ 53) * c2\<^sup>2"
    by (simp add: mult.assoc)
  then have "sqrt (a * (1 + 1 / 2 ^ 53) * c1\<^sup>2) < sqrt (b * (1 - 1 / 2 ^ 53) * c2\<^sup>2)"
    by (rule real_sqrt_less_mono)
  moreover have "0 \<le> c1" by (simp add: c1_def)
  then have "sqrt (a * (1 + 1 / 2 ^ 53)) * c1 = sqrt (a * (1 + 1 / 2 ^ 53) * c1\<^sup>2)"
    by (rule sqrt_times)
  moreover have "0 \<le> c2" by (simp add: c2_def)
  then have "sqrt (b * (1 - 1 / 2 ^ 53)) * c2 = sqrt (b * (1 - 1 / 2 ^ 53) * c2\<^sup>2)"
    by (rule sqrt_times)
  ultimately have "sqrt (a * (1 + 1 / 2 ^ 53)) * c1 < sqrt (b * (1 - 1 / 2 ^ 53)) * c2"
    by (simp only:)
  moreover have "rounded_volume a \<le> sqrt (a * (1 + 1 / 2 ^ 53)) * c1"
    unfolding c1_def using assms(1) ab assms(2) by (intro rounded_volume_bounds(2)) simp_all
  moreover have "sqrt (b * (1 - 1 / 2 ^ 53)) * c2 \<le> rounded_volume b"
    unfolding c2_def using assms(1) ab assms(2) by (intro rounded_volume_bounds(1)) simp_all
  ultimately show ?thesis by linarith
qed

lemma rounded_volume_le_half:
  assumes "1 / 4096 \<le> a" "a \<le> 1 / 30"
  shows "rounded_volume a \<le> 1 / 2"
proof -
  define c1 :: real where "c1 = (1 + 1 / 2 ^ 53) * (1 + 1 / 2 ^ 24)"
  have "a * (1 + 1 / 2 ^ 53) * c1\<^sup>2 \<le> (1 / 30) * (1 + 1 / 2 ^ 53) * c1\<^sup>2"
    using assms(2) by (intro mult_right_mono) simp_all
  also have "\<dots> \<le> (1 / 2)\<^sup>2" by (simp add: c1_def power2_eq_square)
  finally have "sqrt (a * (1 + 1 / 2 ^ 53) * c1\<^sup>2) \<le> sqrt ((1 / 2)\<^sup>2)"
    by (rule real_sqrt_le_mono)
  moreover have "sqrt ((1 / 2)\<^sup>2) = (1 / 2 :: real)" by simp
  moreover have "0 \<le> c1" by (simp add: c1_def)
  then have "sqrt (a * (1 + 1 / 2 ^ 53)) * c1 = sqrt (a * (1 + 1 / 2 ^ 53) * c1\<^sup>2)"
    by (rule sqrt_times)
  ultimately have "sqrt (a * (1 + 1 / 2 ^ 53)) * c1 \<le> 1 / 2" by (simp only:)
  moreover have "rounded_volume a \<le> sqrt (a * (1 + 1 / 2 ^ 53)) * c1"
    unfolding c1_def using assms by (intro rounded_volume_bounds(2)) simp_all
  ultimately show ?thesis by linarith
qed

lemma dbl_quarters: "k \<le> 1024 \<Longrightarrow> dbl (real k / 4) = Fin (real k / 4)"
  using dbl_exact[of "int k" "- 2"] by (simp add: pow2_def)

lemma dbl_quarter [simp]: "dbl (1 / 4) = Fin (1 / 4)"
  using dbl_quarters[of 1] by simp

lemma dbl_half [simp]: "dbl (1 / 2) = Fin (1 / 2)"
  using dbl_quarters[of 2] by simp

lemma f32_quarter [simp]: "f32 (1 / 4) = Fin (1 / 4)"
  using f32_exact[of 1 "- 2"] by (simp add: pow2_def)

lemma half_column:
  "i < 128 \<Longrightarrow>
   js_div (allChannelsSampleSquareSum [replicate 128 (Fin (1 / 2)), replicate 128 (Fin (1 / 2))] i)
     (int (length [replicate 128 (Fin (1 / 2)), replicate 128 (Fin (1 / 2))])) = Fin (1 / 4)"
  by (simp add: allChannelsSampleSquareSum_def sample_at_def typed_get_def)

text \<open>The output sample for a mean of squares \<open>a\<close> over the window, when nothing overflows.\<close>

lemma volume_value:
  assumes "1 / 4096 \<le> a" "a \<le> 1"
  shows "fround (Math_sqrt (dbl a)) = Fin (rounded_volume a)"
proof -
  have "pow2 (- 1022) \<le> a" using assms(1) by (simp add: pow2_def)
  then have "dround a \<le> a * (1 + pow2 (- int 53))"
    unfolding dround_def by (rule round_fin_bounds(2))
  also have "\<dots> \<le> 1 * (1 + pow2 (- int 53))" using assms(2) by (intro mult_right_mono) simp_all
  also have "\<dots> \<le> 4" by (simp add: pow2_def)
  finally have d4: "dround a \<le> 4" .
  have d0: "0 \<le> dround a" unfolding dround_def using assms(1) by (intro round_fin_nonneg) simp
  have da: "dbl a = Fin (dround a)" using assms by (intro dbl_fin) simp
  have "sqrt (dround a) \<le> sqrt 4" using d4 by (rule real_sqrt_le_mono)
  then have s2: "sqrt (dround a) \<le> 2" using real_sqrt_four by linarith
  have s0: "0 \<le> sqrt (dround a)" using d0 by simp
  have ds: "dbl (sqrt (dround a)) = Fin (dround (sqrt (dround a)))"
    using s0 s2 by (intro dbl_fin) simp
  have r0: "0 \<le> dround (sqrt (dround a))"
    using round_fin_nonneg[OF s0, of 53 "- 1022"] by (simp add: dround_def)
  have "a * (1 - pow2 (- int 53)) \<le> dround a"
    unfolding dround_def using \<open>pow2 (- 1022) \<le> a\<close> by (rule round_fin_bounds(1))
  moreover have "a * (1 / 2) \<le> a * (1 - pow2 (- int 53))"
    using assms(1) by (intro mult_left_mono) (simp_all add: pow2_def)
  ultimately have "1 / 8192 \<le> dround a" using assms(1) by linarith
  then have "(1 / 128)\<^sup>2 \<le> dround a" by (simp add: power2_eq_square)
  then have "1 / 128 \<le> sqrt (dround a)" by (metis real_le_rsqrt)
  then have "pow2 (- 1022) \<le> sqrt (dround a)" by (simp add: pow2_def)
  then have "dround (sqrt (dround a)) \<le> sqrt (dround a) * (1 + pow2 (- int 53))"
    unfolding dround_def by (rule round_fin_bounds(2))
  also have "\<dots> \<le> 2 * (1 + pow2 (- int 53))" using s2 by (intro mult_right_mono) simp_all
  also have "\<dots> \<le> 4" by (simp add: pow2_def)
  finally have "dround (sqrt (dround a)) \<le> 4" .
  then have fs: "f32 (dround (sqrt (dround a))) = Fin (rounded_volume a)"
    unfolding rounded_volume_def using r0 by (intro f32_fin) simp
  show ?thesis using da d0 ds fs by simp
qed

lemma transient_sample_step:
  assumes wf: "rb_wf (sampleSquaresRingBuffer p)"
    and len: "rb_length (sampleSquaresRingBuffer p) = 960"
    and old: "depths_hold (sampleSquaresRingBuffer p) (int i) 960 (Fin 0)"
    and sum: "currWindowSquaresSum p = Fin (real i / 4)"
    and i: "i < 128"
  shows "sample_step dev 960 [replicate 128 (Fin (1 / 2)), replicate 128 (Fin (1 / 2))] i (p, out) =
     Inr (p\<lparr>sampleSquaresRingBuffer := push (sampleSquaresRingBuffer p) (Fin (1 / 4)),
            currWindowSquaresSum := Fin (real (Suc i) / 4)\<rparr>,
          typed_set out (int i) (Math_sqrt (dbl (real (Suc i) / 4 / 960))))"
proof -
  have "getReverse dev (sampleSquaresRingBuffer p) (960 - 1)
      = getReverse False (sampleSquaresRingBuffer p) (960 - 1)"
    using len by (intro getReverse_no_throw) simp
  also have "\<dots> = Inr (Some (Fin 0))" using old i by (simp add: depths_hold_def)
  finally have g: "getReverse dev (sampleSquaresRingBuffer p) (960 - 1) = Inr (Some (Fin 0))" .
  have s1: "js_sub (Fin (real i / 4)) (Fin 0) = Fin (real i / 4)"
    using dbl_quarters[of i] i by (simp add: js_sub_def)
  have e: "real i / 4 + 1 / 4 = real (Suc i) / 4" by simp
  have s2: "js_add (Fin (real i / 4)) (Fin (1 / 4)) = Fin (real (Suc i) / 4)"
    unfolding js_add.simps e by (rule dbl_quarters) (use i in simp)
  have s3: "Math_max (Fin (real (Suc i) / 4)) (Fin 0) = Fin (real (Suc i) / 4)"
    by (simp add: Math_max_def del: of_nat_Suc)
  have v: "js_div (Fin (real (Suc i) / 4)) 960 = dbl (real (Suc i) / 4 / 960)"
    by (simp del: of_nat_Suc)
  show ?thesis
    unfolding sample_step_def Let_def fst_conv snd_conv half_column[OF i] g sum
    by (simp add: s1 s2 s3 v del: of_nat_Suc js_add.simps js_div.simps)
qed

lemma transient_sample_loop:
  assumes "rb_wf (sampleSquaresRingBuffer (fst st))"
    and "rb_length (sampleSquaresRingBuffer (fst st)) = 960"
    and "depths_hold (sampleSquaresRingBuffer (fst st)) (int i) 960 (Fin 0)"
    and "currWindowSquaresSum (fst st) = Fin (real i / 4)"
    and "n = 128" "ws = 960"
    and "input = [replicate 128 (Fin (1 / 2)), replicate 128 (Fin (1 / 2))]"
  shows "snd (sample_loop dev ws input n i st) = Returned
    \<and> (\<forall>j. i \<le> j \<and> j < n \<and> j < length (snd st) \<longrightarrow>
          snd (fst (sample_loop dev ws input n i st)) ! j
            = Fin (rounded_volume (real (Suc j) / 4 / 960)))"
  using assms
proof (induction dev ws input n i st rule: sample_loop.induct)
  case (1 dev ws input n i st)
  show ?case
  proof (cases "i < n")
    case True
    obtain p out where st: "st = (p, out)" by (cases st)
    let ?p' = "p\<lparr>sampleSquaresRingBuffer := push (sampleSquaresRingBuffer p) (Fin (1 / 4)),
        currWindowSquaresSum := Fin (real (Suc i) / 4)\<rparr>"
    let ?st' = "(?p', typed_set out (int i) (Math_sqrt (dbl (real (Suc i) / 4 / 960))))"
    have i: "i < 128" using True "1.prems" by simp
    have step: "sample_step dev ws input i st = Inr ?st'"
      unfolding st using "1.prems" i by (simp add: st transient_sample_step)
    have eq: "sample_loop dev ws input n i st = sample_loop dev ws input n (Suc i) ?st'"
      using True step by (subst sample_loop.simps) simp
    have old': "depths_hold (push (sampleSquaresRingBuffer p) (Fin (1 / 4))) (int i + 1) 960 (Fin 0)"
      using "1.prems" st by (intro depths_hold_push) simp_all
    have IH: "snd (sample_loop dev ws input n (Suc i) ?st') = Returned
      \<and> (\<forall>j. Suc i \<le> j \<and> j < n \<and> j < length (snd ?st') \<longrightarrow>
            snd (fst (sample_loop dev ws input n (Suc i) ?st')) ! j
              = Fin (rounded_volume (real (Suc j) / 4 / 960)))"
      using "1.prems" st old'
      by (intro "1.IH"[OF True step]) (simp_all add: rb_wf_push add.commute)
    have keep: "snd (fst (sample_loop dev ws input n (Suc i) ?st')) ! i = snd ?st' ! i"
      using sample_loop_output[of ?st' dev ws input n "Suc i"] by simp
    have "1 / 4096 \<le> real (Suc i) / 4 / 960" "real (Suc i) / 4 / 960 \<le> 1" using i by simp_all
    then have "fround (Math_sqrt (dbl (real (Suc i) / 4 / 960)))
        = Fin (rounded_volume (real (Suc i) / 4 / 960))"
      by (rule volume_value)
    then have at_i: "i < length out \<Longrightarrow> snd ?st' ! i = Fin (rounded_volume (real (Suc i) / 4 / 960))"
      by (simp add: typed_set_def del: of_nat_Suc)
    have "snd (fst (sample_loop dev ws input n (Suc i) ?st')) ! j
        = Fin (rounded_volume (real (Suc j) / 4 / 960))"
      if "i \<le> j \<and> j < n \<and> j < length (snd st)" for j
    proof (cases "j = i")
      case True
      then show ?thesis using keep at_i that st by simp
    next
      case False
      then have "Suc i \<le> j \<and> j < n \<and> j < length (snd ?st')" using that st by simp
      then show ?thesis using IH by blast
    qed
    then show ?thesis unfolding eq using IH by blast
  next
    case False
    then have "sample_loop dev ws input n i st = (st, Returned)" by (subst sample_loop.simps) simp
    then show ?thesis using False by auto
  qed
qed

lemma transient_outputs:
  assumes "elems (sampleSquaresRingBuffer p) = replicate 960 (Fin 0)"
    and "rb_wf (sampleSquaresRingBuffer p)"
    and "currWindowSquaresSum p = Fin 0"
  shows "res_completion (process dev 48000 g p
        [replicate 128 (Fin (1 / 2)), replicate 128 (Fin (1 / 2))] out (5368709 / 268435456))
      = Returned"
    and "\<forall>j. j < 128 \<and> j < length out \<longrightarrow>
      res_output (process dev 48000 g p
        [replicate 128 (Fin (1 / 2)), replicate 128 (Fin (1 / 2))] out (5368709 / 268435456)) ! j
      = Fin (rounded_volume (real (Suc j) / 4 / 960))"
proof -
  let ?in = "[replicate 128 (Fin (1 / 2)), replicate 128 (Fin (1 / 2))]"
  have len: "rb_length (sampleSquaresRingBuffer p) = 960" using assms(1) by (simp add: rb_length_def)
  have old: "depths_hold (sampleSquaresRingBuffer p) 0 960 (Fin 0)"
    using assms(2) assms(1) by (rule window_holds_replicate) (simp add: len)
  have loop: "snd (sample_loop dev 960 ?in 128 0 (p, out)) = Returned
    \<and> (\<forall>j. 0 \<le> j \<and> j < 128 \<and> j < length (snd (p, out)) \<longrightarrow>
          snd (fst (sample_loop dev 960 ?in 128 0 (p, out))) ! j
            = Fin (rounded_volume (real (Suc j) / 4 / 960)))"
    using assms len old by (intro transient_sample_loop) simp_all
  have proc: "process dev 48000 g p ?in out (5368709 / 268435456)
      = \<lparr>res_globals = res_globals (process dev 48000 g p ?in out (5368709 / 268435456)),
         res_this = fst (fst (sample_loop dev 960 ?in 128 0 (p, out))),
         res_output = snd (fst (sample_loop dev 960 ?in 128 0 (p, out))),
         res_completion = snd (sample_loop dev 960 ?in 128 0 (p, out))\<rparr>"
    by (simp add: process_def Let_def window_960 SAMPLES_PER_QUANTUM_def)
  show "res_completion (process dev 48000 g p ?in out (5368709 / 268435456)) = Returned"
    by (subst proc) (simp add: loop)
  show "\<forall>j. j < 128 \<and> j < length out \<longrightarrow>
      res_output (process dev 48000 g p ?in out (5368709 / 268435456)) ! j
      = Fin (rounded_volume (real (Suc j) / 4 / 960))"
    by (subst proc) (use loop in simp)
qed

text \<open>
  C3. At a sample rate of 48000 the window length 0.02 (as the 32-bit float that the
  parameter holds) is 960 samples. Take a processor whose ring buffer has 960 slots, all 0,
  and whose running sum is 0, as after construction with \<open>maxSmoothingWindowLength = 0.02\<close>
  and any number of silent blocks. Then \<^verbatim>\<open>process\<close> on a block of 128 samples of constant 0.5
  on 2 channels returns, each output sample is strictly less than the next, and no output
  sample exceeds 0.5.
\<close>

theorem transient_fill:
  assumes "elems (sampleSquaresRingBuffer p) = replicate 960 (Fin 0)"
    and "rb_wf (sampleSquaresRingBuffer p)"
    and "currWindowSquaresSum p = Fin 0"
    and "length out = 128"
  shows "dround (1 / 50) = 5764607523034235 / 288230376151711744
    \<and> f32 (5764607523034235 / 288230376151711744) = Fin (5368709 / 268435456)
    \<and> windowLengthNumSecondsToSamples 48000 (5368709 / 268435456) = 960
    \<and> res_completion (process dev 48000 g p
          [replicate 128 (Fin (1 / 2)), replicate 128 (Fin (1 / 2))] out (5368709 / 268435456))
        = Returned
    \<and> (\<forall>i < 127.
          js_lt (res_output (process dev 48000 g p
                  [replicate 128 (Fin (1 / 2)), replicate 128 (Fin (1 / 2))] out
                  (5368709 / 268435456)) ! i)
                (res_output (process dev 48000 g p
                  [replicate 128 (Fin (1 / 2)), replicate 128 (Fin (1 / 2))] out
                  (5368709 / 268435456)) ! Suc i))
    \<and> (\<forall>i < 128.
          js_ge (Fin (1 / 2))
                (res_output (process dev 48000 g p
                  [replicate 128 (Fin (1 / 2)), replicate 128 (Fin (1 / 2))] out
                  (5368709 / 268435456)) ! i))"
proof -
  let ?r = "process dev 48000 g p
      [replicate 128 (Fin (1 / 2)), replicate 128 (Fin (1 / 2))] out (5368709 / 268435456)"
  have ret: "res_completion ?r = Returned" using assms(1-3) by (rule transient_outputs(1))
  have val: "res_output ?r ! j = Fin (rounded_volume (real (Suc j) / 4 / 960))" if "j < 128" for j
    using transient_outputs(2)[OF assms(1-3), where dev = dev and g = g and out = out] that assms(4)
    by simp
  have inc: "js_lt (res_output ?r ! i) (res_output ?r ! Suc i)" if "i < 127" for i
  proof -
    have "rounded_volume (real (Suc i) / 4 / 960) < rounded_volume (real (Suc (Suc i)) / 4 / 960)"
      using that by (intro rounded_volume_strict_mono) (simp_all add: field_simps)
    then show ?thesis using val[of i] val[of "Suc i"] that by simp
  qed
  have le: "js_ge (Fin (1 / 2)) (res_output ?r ! i)" if "i < 128" for i
  proof -
    have "rounded_volume (real (Suc i) / 4 / 960) \<le> 1 / 2"
      using that by (intro rounded_volume_le_half) (simp_all add: field_simps)
    then show ?thesis using val[of i] that by simp
  qed
  show ?thesis using double_0_02 float_0_02 window_960 ret inc le by blast
qed

theorem transient_fill_witness:
  "new_VolumeFilterProcessor 4294967295 48000
      (VolumeFilterNode (5764607523034235 / 288230376151711744)
         (5764607523034235 / 288230376151711744))
    = Inr \<lparr>sampleSquaresRingBuffer = \<lparr>elems = replicate 960 (Fin 0), lastSampleI = 959\<rparr>,
           currWindowSquaresSum = Fin 0,
           options = \<lparr>maxChannels = 32,
                      maxSmoothingWindowLength = 5764607523034235 / 288230376151711744\<rparr>\<rparr>
   \<and> rb_wf \<lparr>elems = replicate 960 (Fin 0), lastSampleI = 959\<rparr>
   \<and> length (replicate 128 (Fin 0)) = 128
   \<and> res_completion (process True 48000 \<lparr>devErrorShown = False, console_error = []\<rparr>
        \<lparr>sampleSquaresRingBuffer = \<lparr>elems = replicate 960 (Fin 0), lastSampleI = 959\<rparr>,
          currWindowSquaresSum = Fin 0,
          options = \<lparr>maxChannels = 32,
                     maxSmoothingWindowLength = 5764607523034235 / 288230376151711744\<rparr>\<rparr>
        [replicate 128 (Fin (1 / 2)), replicate 128 (Fin (1 / 2))] (replicate 128 (Fin 0))
        (5368709 / 268435456)) = Returned
   \<and> js_lt
       (res_output (process True 48000 \<lparr>devErrorShown = False, console_error = []\<rparr>
          \<lparr>sampleSquaresRingBuffer = \<lparr>elems = replicate 960 (Fin 0), lastSampleI = 959\<rparr>,
            currWindowSquaresSum = Fin 0,
            options = \<lparr>maxChannels = 32,
                       maxSmoothingWindowLength = 5764607523034235 / 288230376151711744\<rparr>\<rparr>
          [replicate 128 (Fin (1 / 2)), replicate 128 (Fin (1 / 2))] (replicate 128 (Fin 0))
          (5368709 / 268435456)) ! 0)
       (res_output (process True 48000 \<lparr>devErrorShown = False, console_error = []\<rparr>
          \<lparr>sampleSquaresRingBuffer = \<lparr>elems = replicate 960 (Fin 0), lastSampleI = 959\<rparr>,
            currWindowSquaresSum = Fin 0,
            options = \<lparr>maxChannels = 32,
                       maxSmoothingWindowLength = 5764607523034235 / 288230376151711744\<rparr>\<rparr>
          [replicate 128 (Fin (1 / 2)), replicate 128 (Fin (1 / 2))] (replicate 128 (Fin 0))
          (5368709 / 268435456)) ! Suc 0)
   \<and> js_ge (Fin (1 / 2))
       (res_output (process True 48000 \<lparr>devErrorShown = False, console_error = []\<rparr>
          \<lparr>sampleSquaresRingBuffer = \<lparr>elems = replicate 960 (Fin 0), lastSampleI = 959\<rparr>,
            currWindowSquaresSum = Fin 0,
            options = \<lparr>maxChannels = 32,
                       maxSmoothingWindowLength = 5764607523034235 / 288230376151711744\<rparr>\<rparr>
          [replicate 128 (Fin (1 / 2)), replicate 128 (Fin (1 / 2))] (replicate 128 (Fin 0))
          (5368709 / 268435456)) ! 127)"
proof -
  let ?rb = "\<lparr>elems = replicate 960 (Fin 0), lastSampleI = 959\<rparr>"
  let ?p = "\<lparr>sampleSquaresRingBuffer = ?rb, currWindowSquaresSum = Fin 0,
      options = \<lparr>maxChannels = 32,
                 maxSmoothingWindowLength = 5764607523034235 / 288230376151711744\<rparr>\<rparr>"
  have new: "new_VolumeFilterProcessor 4294967295 48000
      (VolumeFilterNode (5764607523034235 / 288230376151711744)
         (5764607523034235 / 288230376151711744)) = Inr ?p"
    by (simp add: new_VolumeFilterProcessor_def VolumeFilterNode_def merge_options_def
        new_SingleChannelRingBuffer_def DEFAULT_MAX_NUM_CHANNELS_def Let_def window_960_double)
  have wf: "rb_wf ?rb" by (simp add: rb_wf_def rb_length_def)
  have e: "elems (sampleSquaresRingBuffer ?p) = replicate 960 (Fin 0)" by simp
  have s: "currWindowSquaresSum ?p = Fin 0" by simp
  have l: "length (replicate 128 (Fin 0)) = 128" by simp
  have wf': "rb_wf (sampleSquaresRingBuffer ?p)" using wf by simp
  show ?thesis
    using transient_fill[OF e wf' s l, where dev = True
        and g = "\<lparr>devErrorShown = False, console_error = []\<rparr>"]
      new wf
    by simp
qed

end
